theory Spec2Isabelle
  imports Main "HOL-Library.AList"
begin

section \<open>Python values\<close>

text \<open>
  A raised exception is a value: its class name and the text that \<^verbatim>\<open>str(e)\<close> gives
  (the only parts of an exception the program ever looks at: it formats \<^verbatim>\<open>{e}\<close> into
  the message of the exception it raises instead). A call that may raise returns
  \<open>exn + 'a\<close>, with \<open>Inl\<close> for the raise.
\<close>

datatype exn = PyExc (exc_class: string) (exc_str: string)

type_synonym bytes = string

text \<open>The decimal text of an integer, as \<^verbatim>\<open>repr\<close> prints a dictionary key in a KeyError.\<close>

fun str_nat :: "nat \<Rightarrow> string" where
  "str_nat n =
     (if n < 10 then [char_of (48 + n)]
      else str_nat (n div 10) @ [char_of (48 + n mod 10)])"

declare str_nat.simps [simp del]

definition str_int :: "int \<Rightarrow> string" where
  "str_int i = (if i < 0 then CHR ''-'' # str_nat (nat (- i)) else str_nat (nat i))"

definition KeyError :: "int \<Rightarrow> exn" where
  "KeyError k = PyExc ''KeyError'' (str_int k)"

definition IndexError :: exn where
  "IndexError = PyExc ''IndexError'' ''list index out of range''"

text \<open>What \<^verbatim>\<open>await request.json()\<close> can return: a parsed JSON document.\<close>

datatype json =
    JNull
  | JBool bool
  | JNumber int
  | JString string
  | JArray "json list"
  | JObject "(string \<times> json) list"

fun type_name :: "json \<Rightarrow> string" where
  "type_name JNull = ''NoneType''"
| "type_name (JBool b) = ''bool''"
| "type_name (JNumber n) = ''int''"
| "type_name (JString s) = ''str''"
| "type_name (JArray xs) = ''list''"
| "type_name (JObject kvs) = ''dict''"

definition AttributeError :: "json \<Rightarrow> string \<Rightarrow> exn" where
  "AttributeError v attr =
     PyExc ''AttributeError''
       ([CHR 0x27] @ type_name v @ [CHR 0x27] @ '' object has no attribute ''
          @ [CHR 0x27] @ attr @ [CHR 0x27])"

section \<open>The collaborators: sphinxmix and the Python runtime\<close>

text \<open>
  \<^verbatim>\<open>pki_entry\<close> is sphinxmix's named tuple \<^verbatim>\<open>(id, x, y)\<close>: node id, private key and public
  key. The fields are called \<open>pki_id\<close>, \<open>pki_x\<close> and \<open>pki_y\<close> here. The private key is
  \<^verbatim>\<open>None\<close> in a public entry.
\<close>

datatype ('sk, 'pk) pki_entry = pki_entry (pki_id: int) (pki_x: "'sk option") (pki_y: 'pk)

text \<open>
  The tuple that \<^verbatim>\<open>PFdecode\<close> returns starts with a flag: \<^verbatim>\<open>(Relay_flag, addr)\<close>,
  \<^verbatim>\<open>(Dest_flag,)\<close>, or a tuple with another flag (the library also has a flag for reply
  blocks). One constructor for each case that the relay loop tells apart.
\<close>

datatype routing = Relay int | Dest | Other

text \<open>
  Everything \<^verbatim>\<open>main.py\<close> imports and calls is a field of the environment \<open>E\<close>: the
  sphinxmix and petlib operations and the codec of Python's \<^verbatim>\<open>str\<close> and \<^verbatim>\<open>bytes\<close>. Each may
  raise. \<open>'sk\<close> is the type of secrets, \<open>'pk\<close> of group elements, \<open>'hdr\<close> of packet
  headers and \<open>'rng\<close> of the state of the random sources. \<^verbatim>\<open>SphinxParams()\<close> yields the
  parameter object that every other call receives; the fields below are the operations
  at that parameter object.

  \<^item> \<open>gensecret\<close>: \<^verbatim>\<open>params.group.gensecret()\<close>
  \<^item> \<open>expon_g\<close>: \<^verbatim>\<open>params.group.expon(params.group.g, [secret_key])\<close>
  \<^item> \<open>urandom\<close>: \<^verbatim>\<open>os.urandom(8)\<close>, read as a number (eight bytes compare as their
    big-endian value does)
  \<^item> \<open>sphinx_process\<close> returns \<^verbatim>\<open>(tag, info, (header, delta), mac_key)\<close>
  \<^item> \<open>receive_forward\<close> returns \<^verbatim>\<open>(dest, message)\<close>
\<close>

record ('sk, 'pk, 'hdr, 'rng) env =
  SphinxParams :: "exn + unit"
  gensecret :: "'rng \<Rightarrow> (exn + 'sk) \<times> 'rng"
  expon_g :: "'sk \<Rightarrow> exn + 'pk"
  urandom :: "'rng \<Rightarrow> nat \<times> 'rng"
  Nenc :: "int \<Rightarrow> exn + bytes"
  create_forward_message ::
    "'rng \<Rightarrow> bytes list \<Rightarrow> 'pk list \<Rightarrow> bytes \<Rightarrow> bytes \<Rightarrow> (exn + 'hdr \<times> bytes) \<times> 'rng"
  sphinx_process ::
    "'sk option \<Rightarrow> 'hdr \<Rightarrow> bytes \<Rightarrow> exn + bytes \<times> bytes \<times> ('hdr \<times> bytes) \<times> bytes"
  PFdecode :: "bytes \<Rightarrow> exn + routing"
  receive_forward :: "bytes \<Rightarrow> bytes \<Rightarrow> exn + bytes \<times> bytes"
  str_encode :: "string \<Rightarrow> exn + bytes"
  bytes_decode :: "bytes \<Rightarrow> exn + string"

section \<open>Objects and the world\<close>

text \<open>
  A \<^verbatim>\<open>Mixnet\<close> object holds two dictionaries from node id to \<^verbatim>\<open>pki_entry\<close>. A Python
  dictionary keeps its keys in insertion order, and \<^verbatim>\<open>pkiPub.keys()\<close> is read in that
  order, so a dictionary is an association list: \<open>map_of\<close> reads it and \<open>AList.update\<close>
  assigns (in place for a key that is there, at the end for a new one).
\<close>

record ('sk, 'pk) mixnet =
  pkiPriv :: "(int \<times> ('sk, 'pk) pki_entry) list"
  pkiPub :: "(int \<times> ('sk, 'pk) pki_entry) list"

text \<open>
  The world: the objects allocated so far (an object's address is its index), the state
  of the random sources, and the lines printed.
\<close>

record ('sk, 'pk, 'rng) world =
  heap :: "('sk, 'pk) mixnet list"
  rng :: 'rng
  stdout :: "string list"

definition print_line :: "string \<Rightarrow> ('sk, 'pk, 'rng) world \<Rightarrow> ('sk, 'pk, 'rng) world" where
  "print_line s w = w\<lparr>stdout := stdout w @ [s]\<rparr>"

text \<open>The two lines the program prints, as its f-strings format them.\<close>

definition created_line :: "string \<Rightarrow> string" where
  "created_line dest = ''Message created for destination '' @ [CHR 0x27] @ dest @ [CHR 0x27] @ ''.''"

definition received_line :: "string \<Rightarrow> string \<Rightarrow> string" where
  "received_line dest text =
     ''Message received at destination '' @ [CHR 0x27] @ dest @ [CHR 0x27] @ '': '' @ text"

definition py_range :: "int \<Rightarrow> int list" where
  "py_range n = [0..n - 1]"

section \<open>Mixnet.__init__ and Mixnet._initialize_nodes\<close>

text \<open>The body of the \<^verbatim>\<open>for i in range(num_nodes)\<close> loop, run over the ids left.\<close>

fun initialize_nodes_loop ::
  "('sk, 'pk, 'hdr, 'rng) env \<Rightarrow> nat \<Rightarrow> int list \<Rightarrow> ('sk, 'pk, 'rng) world
    \<Rightarrow> (exn + unit) \<times> ('sk, 'pk, 'rng) world" where
  "initialize_nodes_loop E self [] w = (Inr (), w)"
| "initialize_nodes_loop E self (i # is) w =
     (let nid = i in
      case gensecret E (rng w) of
        (Inl e, r) \<Rightarrow> (Inl e, w\<lparr>rng := r\<rparr>)
      | (Inr secret_key, r) \<Rightarrow>
          (case expon_g E secret_key of
             Inl e \<Rightarrow> (Inl e, w\<lparr>rng := r\<rparr>)
           | Inr public_key \<Rightarrow>
               (let obj = heap w ! self;
                    obj1 = obj\<lparr>pkiPriv :=
                      AList.update nid (pki_entry nid (Some secret_key) public_key) (pkiPriv obj)\<rparr>;
                    obj2 = obj1\<lparr>pkiPub :=
                      AList.update nid (pki_entry nid None public_key) (pkiPub obj1)\<rparr>
                in initialize_nodes_loop E self is
                     (w\<lparr>rng := r, heap := (heap w)[self := obj2]\<rparr>))))"

definition initialize_nodes ::
  "('sk, 'pk, 'hdr, 'rng) env \<Rightarrow> nat \<Rightarrow> int \<Rightarrow> ('sk, 'pk, 'rng) world
    \<Rightarrow> (exn + unit) \<times> ('sk, 'pk, 'rng) world" where
  "initialize_nodes E self num_nodes w =
     (case initialize_nodes_loop E self (py_range num_nodes) w of
        (Inl e, w') \<Rightarrow> (Inl (PyExc ''Exception'' (''Error initializing nodes: '' @ exc_str e)), w')
      | (Inr u, w') \<Rightarrow> (Inr u, w'))"

definition Mixnet_init ::
  "('sk, 'pk, 'hdr, 'rng) env \<Rightarrow> nat \<Rightarrow> int \<Rightarrow> ('sk, 'pk, 'rng) world
    \<Rightarrow> (exn + unit) \<times> ('sk, 'pk, 'rng) world" where
  "Mixnet_init E self num_nodes w =
     (case (case SphinxParams E of
              Inl e \<Rightarrow> (Inl e, w)
            | Inr params \<Rightarrow>
                initialize_nodes E self num_nodes
                  (w\<lparr>heap := (heap w)[self := \<lparr>pkiPriv = [], pkiPub = []\<rparr>]\<rparr>)) of
        (Inl e, w') \<Rightarrow>
          (Inl (PyExc ''RuntimeError'' (''Error initializing Mixnet: '' @ exc_str e)), w')
      | (Inr u, w') \<Rightarrow> (Inr u, w'))"

text \<open>
  The call \<^verbatim>\<open>Mixnet(...)\<close>: a new object at a fresh address, then \<^verbatim>\<open>__init__\<close> on it.
  \<open>None\<close> for \<open>num_nodes\<close> is the call without the argument, which takes the default 10.
  The result is the address of the object.
\<close>

definition Mixnet ::
  "('sk, 'pk, 'hdr, 'rng) env \<Rightarrow> int option \<Rightarrow> ('sk, 'pk, 'rng) world
    \<Rightarrow> (exn + nat) \<times> ('sk, 'pk, 'rng) world" where
  "Mixnet E num_nodes w =
     (let self = length (heap w);
          w0 = w\<lparr>heap := heap w @ [\<lparr>pkiPriv = [], pkiPub = []\<rparr>]\<rparr>
      in case Mixnet_init E self (case num_nodes of None \<Rightarrow> 10 | Some n \<Rightarrow> n) w0 of
           (Inl e, w') \<Rightarrow> (Inl e, w')
         | (Inr u, w') \<Rightarrow> (Inr self, w'))"

section \<open>sphinxmix's rand_subset\<close>

text \<open>
  \<^verbatim>\<open>rand_subset(lst, nu)\<close> is imported from sphinxmix's SphinxClient. It pairs every
  element of \<^verbatim>\<open>lst\<close> with a fresh \<^verbatim>\<open>urandom(8)\<close> key, sorts the pairs on the key
  (Python's sort is stable) and returns the elements of the first \<^verbatim>\<open>nu\<close> pairs:
  \<^verbatim>\<open>
  def rand_subset(lst, nu):
      nodeids = [(urandom(8), x) for x in lst]
      nodeids.sort(key=lambda x: x[0])
      return list(map(lambda x: x[1], nodeids[:nu]))
  \<close>
  It has no check of \<^verbatim>\<open>nu\<close> against the length of \<^verbatim>\<open>lst\<close>.
\<close>

fun draw_keys :: "('rng \<Rightarrow> nat \<times> 'rng) \<Rightarrow> 'a list \<Rightarrow> 'rng \<Rightarrow> (nat \<times> 'a) list \<times> 'rng" where
  "draw_keys u [] r = ([], r)"
| "draw_keys u (v # vs) r =
     (case u r of (k, r1) \<Rightarrow>
        (case draw_keys u vs r1 of (kvs, r2) \<Rightarrow> ((k, v) # kvs, r2)))"

definition rand_subset ::
  "('sk, 'pk, 'hdr, 'rng) env \<Rightarrow> 'a list \<Rightarrow> nat \<Rightarrow> 'rng \<Rightarrow> 'a list \<times> 'rng" where
  "rand_subset E lst nu r =
     (case draw_keys (urandom E) lst r of
        (nodeids, r') \<Rightarrow> (map snd (take nu (sort_key fst nodeids)), r'))"

section \<open>Mixnet.send_message\<close>

text \<open>A call mapped over a list raises at the first element on which it raises.\<close>

fun map_raise :: "('a \<Rightarrow> exn + 'b) \<Rightarrow> 'a list \<Rightarrow> exn + 'b list" where
  "map_raise f [] = Inr []"
| "map_raise f (v # vs) =
     (case f v of
        Inl e \<Rightarrow> Inl e
      | Inr y \<Rightarrow> (case map_raise f vs of Inl e \<Rightarrow> Inl e | Inr ys \<Rightarrow> Inr (y # ys)))"

text \<open>\<^verbatim>\<open>d[k]\<close> on a dictionary raises KeyError for a key that is not there.\<close>

definition dict_item :: "(int \<times> 'v) list \<Rightarrow> int \<Rightarrow> exn + 'v" where
  "dict_item d k = (case map_of d k of None \<Rightarrow> Inl (KeyError k) | Some v \<Rightarrow> Inr v)"

text \<open>
  \<^verbatim>\<open>message.encode()\<close>: the handler passes whatever the request holds under
  \<^verbatim>\<open>message\<close>, and only a \<^verbatim>\<open>str\<close> has the method.
\<close>

definition py_encode :: "('sk, 'pk, 'hdr, 'rng) env \<Rightarrow> json \<Rightarrow> exn + bytes" where
  "py_encode E v = (case v of JString s \<Rightarrow> str_encode E s | _ \<Rightarrow> Inl (AttributeError v ''encode''))"

text \<open>Step 1 of \<^verbatim>\<open>send_message\<close>: the route, \<^verbatim>\<open>rand_subset(self.pkiPub.keys(), 5)\<close>.\<close>

definition select_route ::
  "('sk, 'pk, 'hdr, 'rng) env \<Rightarrow> nat \<Rightarrow> ('sk, 'pk, 'rng) world \<Rightarrow> int list \<times> 'rng" where
  "select_route E self w = rand_subset E (map fst (pkiPub (heap w ! self))) 5 (rng w)"

text \<open>
  Steps 1 and 2 of \<^verbatim>\<open>send_message\<close>, up to the packet that
  \<^verbatim>\<open>create_forward_message\<close> returns: the route, the packed node ids, the public keys of
  the route, and the packet for the encoded destination and message.
\<close>

definition build_packet ::
  "('sk, 'pk, 'hdr, 'rng) env \<Rightarrow> nat \<Rightarrow> json \<Rightarrow> string \<Rightarrow> ('sk, 'pk, 'rng) world
    \<Rightarrow> (exn + int list \<times> 'hdr \<times> bytes) \<times> ('sk, 'pk, 'rng) world" where
  "build_packet E self message dest w =
     (case select_route E self w of
        (use_nodes, r1) \<Rightarrow>
          (let w1 = w\<lparr>rng := r1\<rparr> in
           case map_raise (Nenc E) use_nodes of
             Inl e \<Rightarrow> (Inl e, w1)
           | Inr nodes_routing \<Rightarrow>
               (case map_raise (\<lambda>n. map_sum id pki_y (dict_item (pkiPub (heap w ! self)) n))
                       use_nodes of
                  Inl e \<Rightarrow> (Inl e, w1)
                | Inr keys_nodes \<Rightarrow>
                    (case str_encode E dest of
                       Inl e \<Rightarrow> (Inl e, w1)
                     | Inr dest_bytes \<Rightarrow>
                         (case py_encode E message of
                            Inl e \<Rightarrow> (Inl e, w1)
                          | Inr message_bytes \<Rightarrow>
                              (case create_forward_message E r1 nodes_routing keys_nodes
                                      dest_bytes message_bytes of
                                 (Inl e, r2) \<Rightarrow> (Inl e, w1\<lparr>rng := r2\<rparr>)
                               | (Inr (header, delta), r2) \<Rightarrow>
                                   (Inr (use_nodes, header, delta), w1\<lparr>rng := r2\<rparr>)))))))"

section \<open>Mixnet._process_message\<close>

text \<open>
  The state of the \<^verbatim>\<open>while True\<close> loop is the private key \<^verbatim>\<open>x\<close> and the packet
  \<^verbatim>\<open>(header, delta)\<close>. One iteration returns, raises, or goes on with the next state.
\<close>

datatype ('r, 's) step = Return 'r | Raise exn | Continue 's

type_synonym ('sk, 'hdr) hop_state = "'sk option \<times> 'hdr \<times> bytes"

definition process_hop ::
  "('sk, 'pk, 'hdr, 'rng) env \<Rightarrow> nat \<Rightarrow> ('sk, 'pk, 'rng) world \<Rightarrow> ('sk, 'hdr) hop_state
    \<Rightarrow> (string \<times> ('sk, 'pk, 'rng) world, ('sk, 'hdr) hop_state) step" where
  "process_hop E self w st =
     (case st of (x, header, delta) \<Rightarrow>
        (case sphinx_process E x header delta of
           Inl e \<Rightarrow> Raise e
         | Inr (tag, info, (header', delta'), mac_key) \<Rightarrow>
             (case PFdecode E info of
                Inl e \<Rightarrow> Raise e
              | Inr (Relay addr) \<Rightarrow>
                  (case dict_item (pkiPriv (heap w ! self)) addr of
                     Inl e \<Rightarrow> Raise e
                   | Inr entry \<Rightarrow> Continue (pki_x entry, header', delta'))
              | Inr Dest \<Rightarrow>
                  (case receive_forward E mac_key delta' of
                     Inl e \<Rightarrow> Raise e
                   | Inr (dest, received_message) \<Rightarrow>
                       (case bytes_decode E dest of
                          Inl e \<Rightarrow> Raise e
                        | Inr dest_text \<Rightarrow>
                            (case bytes_decode E received_message of
                               Inl e \<Rightarrow> Raise e
                             | Inr text \<Rightarrow>
                                 Return (text, print_line (received_line dest_text text) w))))
              | Inr Other \<Rightarrow> Continue (x, header', delta'))))"

text \<open>
  The loop has no bound in the source, so it is a partial function: \<open>None\<close> is the run
  that never leaves the loop.
\<close>

partial_function (option) process_loop ::
  "('sk, 'pk, 'hdr, 'rng) env \<Rightarrow> nat \<Rightarrow> ('sk, 'pk, 'rng) world \<Rightarrow> ('sk, 'hdr) hop_state
    \<Rightarrow> ((exn + string) \<times> ('sk, 'pk, 'rng) world) option" where
  "process_loop E self w st =
     (case process_hop E self w st of
        Return (text, w') \<Rightarrow> Some (Inr text, w')
      | Raise e \<Rightarrow> Some (Inl e, w)
      | Continue st' \<Rightarrow> process_loop E self w st')"

declare process_loop.simps [code]

definition process_message ::
  "('sk, 'pk, 'hdr, 'rng) env \<Rightarrow> nat \<Rightarrow> 'hdr \<Rightarrow> bytes \<Rightarrow> int list \<Rightarrow> ('sk, 'pk, 'rng) world
    \<Rightarrow> ((exn + string) \<times> ('sk, 'pk, 'rng) world) option" where
  "process_message E self header delta use_nodes w =
     (case (case use_nodes of
              [] \<Rightarrow> Some (Inl IndexError, w)
            | n # ns \<Rightarrow>
                (case dict_item (pkiPriv (heap w ! self)) n of
                   Inl e \<Rightarrow> Some (Inl e, w)
                 | Inr entry \<Rightarrow> process_loop E self w (pki_x entry, header, delta))) of
        None \<Rightarrow> None
      | Some (Inl e, w') \<Rightarrow>
          Some (Inl (PyExc ''Exception'' (''Error processing message: '' @ exc_str e)), w')
      | Some (Inr text, w') \<Rightarrow> Some (Inr text, w'))"

definition send_message ::
  "('sk, 'pk, 'hdr, 'rng) env \<Rightarrow> nat \<Rightarrow> json \<Rightarrow> string \<Rightarrow> ('sk, 'pk, 'rng) world
    \<Rightarrow> ((exn + string) \<times> ('sk, 'pk, 'rng) world) option" where
  "send_message E self message dest w =
     (case (case build_packet E self message dest w of
              (Inl e, w1) \<Rightarrow> Some (Inl e, w1)
            | (Inr (use_nodes, header, delta), w1) \<Rightarrow>
                process_message E self header delta use_nodes
                  (print_line (created_line dest) w1)) of
        None \<Rightarrow> None
      | Some (Inl e, w') \<Rightarrow>
          Some (Inl (PyExc ''Exception'' (''Error sending message: '' @ exc_str e)), w')
      | Some (Inr text, w') \<Rightarrow> Some (Inr text, w'))"

section \<open>The /mix endpoint\<close>

text \<open>
  A request is what \<^verbatim>\<open>await request.json()\<close> does on it: the parsed body, or the
  exception of the parser. \<^verbatim>\<open>data.get('message')\<close> needs a dictionary.
\<close>

record request =
  json_body :: "exn + json"

definition json_get :: "json \<Rightarrow> string \<Rightarrow> exn + json" where
  "json_get data key =
     (case data of
        JObject kvs \<Rightarrow> Inr (case map_of kvs key of None \<Rightarrow> JNull | Some v \<Rightarrow> v)
      | _ \<Rightarrow> Inl (AttributeError data ''get''))"

text \<open>
  The handler puts a string or the caught exception object under \<^verbatim>\<open>data\<close>.
  Starlette's \<^verbatim>\<open>JSONResponse\<close> renders its content in the constructor with
  \<^verbatim>\<open>json.dumps\<close>, which raises TypeError on an object that is no JSON value, as an
  exception object is.
\<close>

datatype pyobj = Str string | Exc exn

record response =
  status_code :: int
  body_data :: string

definition JSONResponse :: "pyobj \<Rightarrow> int \<Rightarrow> exn + response" where
  "JSONResponse content status =
     (case content of
        Str s \<Rightarrow> Inr \<lparr>status_code = status, body_data = s\<rparr>
      | Exc e \<Rightarrow>
          Inl (PyExc ''TypeError''
                 (''Object of type '' @ exc_class e @ '' is not JSON serializable'')))"

text \<open>
  The handler returns a response, or an exception leaves it (\<open>Inl\<close>), which the
  framework answers with status 500.
\<close>

definition mix_incoming_messages ::
  "('sk, 'pk, 'hdr, 'rng) env \<Rightarrow> request \<Rightarrow> ('sk, 'pk, 'rng) world
    \<Rightarrow> ((exn + response) \<times> ('sk, 'pk, 'rng) world) option" where
  "mix_incoming_messages E request w =
     (case (case json_body request of
              Inl e \<Rightarrow> Some (Inl e, w)
            | Inr data \<Rightarrow>
                (case json_get data ''message'' of
                   Inl e \<Rightarrow> Some (Inl e, w)
                 | Inr message \<Rightarrow>
                     (case Mixnet E None w of
                        (Inl e, w1) \<Rightarrow> Some (Inl e, w1)
                      | (Inr mixnet, w1) \<Rightarrow>
                          (let destination = ''destination_node'' in
                           case send_message E mixnet message destination w1 of
                             None \<Rightarrow> None
                           | Some (Inl e, w2) \<Rightarrow> Some (Inl e, w2)
                           | Some (Inr received_message, w2) \<Rightarrow>
                               (if received_message \<noteq> []
                                then Some (JSONResponse (Str received_message) 200, w2)
                                else Some (JSONResponse (Str ''Failed to mix message!'') 200, w2)))))) of
        None \<Rightarrow> None
      | Some (Inl e, w') \<Rightarrow> Some (JSONResponse (Exc e) 200, w')
      | Some (Inr r, w') \<Rightarrow> Some (Inr r, w'))"

section \<open>Counting hops, and the round trip of a packet\<close>

text \<open>
  The loop run for at most \<open>n\<close> iterations: \<open>None\<close> when it has not left the loop by
  then. It is the device that counts the iterations of \<open>process_loop\<close>.
\<close>

fun run_hops ::
  "('sk, 'pk, 'hdr, 'rng) env \<Rightarrow> nat \<Rightarrow> ('sk, 'pk, 'rng) world \<Rightarrow> nat \<Rightarrow> ('sk, 'hdr) hop_state
    \<Rightarrow> ((exn + string) \<times> ('sk, 'pk, 'rng) world) option" where
  "run_hops E self w 0 st = None"
| "run_hops E self w (Suc n) st =
     (case process_hop E self w st of
        Return (text, w') \<Rightarrow> Some (Inr text, w')
      | Raise e \<Rightarrow> Some (Inl e, w)
      | Continue st' \<Rightarrow> run_hops E self w n st')"

text \<open>The state of the loop after \<open>k\<close> iterations that all went on.\<close>

fun relay_hops ::
  "('sk, 'pk, 'hdr, 'rng) env \<Rightarrow> nat \<Rightarrow> ('sk, 'pk, 'rng) world \<Rightarrow> nat \<Rightarrow> ('sk, 'hdr) hop_state
    \<Rightarrow> ('sk, 'hdr) hop_state option" where
  "relay_hops E self w 0 st = Some st"
| "relay_hops E self w (Suc k) st =
     (case process_hop E self w st of
        Continue st' \<Rightarrow> relay_hops E self w k st'
      | _ \<Rightarrow> None)"

text \<open>
  The round-trip contract of construct, peel and open, at one packet: peeled with the
  private keys of the route in route order, every hop but the last names the next node
  of the route, the last one is the delivery, and opening gives back the destination and
  the message.
\<close>

fun peels ::
  "('sk, 'pk, 'hdr, 'rng) env \<Rightarrow> (int \<times> ('sk, 'pk) pki_entry) list \<Rightarrow> int list \<Rightarrow> 'hdr \<Rightarrow> bytes
    \<Rightarrow> bytes \<Rightarrow> bytes \<Rightarrow> bool" where
  "peels E priv [] header delta dest msg = False"
| "peels E priv (n # ns) header delta dest msg =
     (case map_of priv n of
        None \<Rightarrow> False
      | Some entry \<Rightarrow>
          (case sphinx_process E (pki_x entry) header delta of
             Inl e \<Rightarrow> False
           | Inr (tag, info, (header', delta'), mac_key) \<Rightarrow>
               (case ns of
                  [] \<Rightarrow> PFdecode E info = Inr Dest
                         \<and> receive_forward E mac_key delta' = Inr (dest, msg)
                | n' # ns' \<Rightarrow> PFdecode E info = Inr (Relay n')
                         \<and> peels E priv ns header' delta' dest msg)))"

section \<open>A small environment to run the program in\<close>

text \<open>
  Stand-ins for the library at which the definitions compute. A secret is a number, its
  public key is the secret plus 100. A header is the list of layers left: the public key
  that opens the layer and the routing information the layer holds. The payload is the
  destination, a bar, and the message.
\<close>

type_synonym toy_header = "(nat \<times> bytes) list"

definition toy_Nenc :: "int \<Rightarrow> exn + bytes" where
  "toy_Nenc i = Inr (CHR ''R'' # replicate (nat i) CHR ''x'')"

definition toy_PFdecode :: "bytes \<Rightarrow> exn + routing" where
  "toy_PFdecode info =
     (case info of
        [] \<Rightarrow> Inl (PyExc ''SphinxException'' ''empty routing information'')
      | c # cs \<Rightarrow>
          if c = CHR ''R'' then Inr (Relay (int (length cs)))
          else if c = CHR ''D'' then Inr Dest
          else Inr Other)"

definition toy_create ::
  "nat \<Rightarrow> bytes list \<Rightarrow> nat list \<Rightarrow> bytes \<Rightarrow> bytes \<Rightarrow> (exn + toy_header \<times> bytes) \<times> nat" where
  "toy_create r nodes_routing keys_nodes dest msg =
     (if nodes_routing = [] \<or> length nodes_routing \<noteq> length keys_nodes
      then (Inl (PyExc ''AssertionError'' []), r)
      else (Inr (zip keys_nodes (tl nodes_routing @ [''D'']), dest @ ''|'' @ msg), Suc r))"

definition toy_process ::
  "nat option \<Rightarrow> toy_header \<Rightarrow> bytes \<Rightarrow> exn + bytes \<times> bytes \<times> (toy_header \<times> bytes) \<times> bytes" where
  "toy_process x header delta =
     (case x of
        None \<Rightarrow> Inl (PyExc ''TypeError'' ''no secret'')
      | Some sk \<Rightarrow>
          (case header of
             [] \<Rightarrow> Inl (PyExc ''SphinxException'' ''MAC mismatch'')
           | (pk, info) # rest \<Rightarrow>
               if pk = sk + 100 then Inr (''tag'', info, (rest, delta), ''mac'')
               else Inl (PyExc ''SphinxException'' ''MAC mismatch'')))"

definition toy_receive :: "bytes \<Rightarrow> bytes \<Rightarrow> exn + bytes \<times> bytes" where
  "toy_receive mac_key delta =
     Inr (takeWhile (\<lambda>c. c \<noteq> CHR ''|'') delta, drop 1 (dropWhile (\<lambda>c. c \<noteq> CHR ''|'') delta))"

definition toy :: "(nat, nat, toy_header, nat) env" where
  "toy =
     \<lparr>SphinxParams = Inr (),
      gensecret = (\<lambda>r. (Inr (3 * r + 1), Suc r)),
      expon_g = (\<lambda>sk. Inr (sk + 100)),
      urandom = (\<lambda>r. ((7 * r + 3) mod 11, Suc r)),
      Nenc = toy_Nenc,
      create_forward_message = toy_create,
      sphinx_process = toy_process,
      PFdecode = toy_PFdecode,
      receive_forward = toy_receive,
      str_encode = Inr,
      bytes_decode = Inr\<rparr>"

text \<open>
  The same environment with a peel that answers every packet with a relay instruction
  to node \<open>k\<close> and hands the packet back unchanged.
\<close>

definition relay_forever :: "int \<Rightarrow> (nat, nat, toy_header, nat) env" where
  "relay_forever k =
     toy\<lparr>sphinx_process :=
       (\<lambda>x header delta. Inr (''tag'', CHR ''R'' # replicate (nat k) CHR ''x'', (header, delta), ''mac''))\<rparr>"

definition world0 :: "(nat, nat, nat) world" where
  "world0 = \<lparr>heap = [], rng = 0, stdout = []\<rparr>"

definition hello_request :: request where
  "hello_request = \<lparr>json_body = Inr (JObject [(''message'', JString ''hello'')])\<rparr>"

text \<open>The world after \<^verbatim>\<open>Mixnet()\<close> in the small environment, and after \<^verbatim>\<open>Mixnet(3)\<close>.\<close>

definition world10 :: "(nat, nat, nat) world" where
  "world10 = snd (Mixnet toy None world0)"

definition world3 :: "(nat, nat, nat) world" where
  "world3 = snd (Mixnet toy (Some 3) world0)"

section \<open>Route selection\<close>

lemma draw_keys_snd: "draw_keys u lst r = (kvs, r') \<Longrightarrow> map snd kvs = lst"
  by (induction lst arbitrary: r kvs) (auto split: prod.splits)

lemma rand_subset_length: "length (fst (rand_subset E lst nu r)) = min nu (length lst)"
proof -
  obtain kvs r' where k: "draw_keys (urandom E) lst r = (kvs, r')"
    by (cases "draw_keys (urandom E) lst r")
  have "length (map snd kvs) = length lst"
    using draw_keys_snd [OF k] by simp
  then show ?thesis
    by (simp add: rand_subset_def k min.commute)
qed

lemma rand_subset_distinct:
  assumes "distinct lst"
  shows "distinct (fst (rand_subset E lst nu r))"
proof -
  obtain kvs r' where k: "draw_keys (urandom E) lst r = (kvs, r')"
    by (cases "draw_keys (urandom E) lst r")
  have "distinct (map snd kvs)"
    using assms draw_keys_snd [OF k] by simp
  then have "distinct (map snd (sort_key fst kvs))"
    by (simp add: distinct_map)
  then have "distinct (take nu (map snd (sort_key fst kvs)))"
    by (rule distinct_take)
  then show ?thesis
    by (simp add: rand_subset_def k take_map)
qed

lemma rand_subset_subset: "set (fst (rand_subset E lst nu r)) \<subseteq> set lst"
proof -
  obtain kvs r' where k: "draw_keys (urandom E) lst r = (kvs, r')"
    by (cases "draw_keys (urandom E) lst r")
  have "set (take nu (map snd (sort_key fst kvs))) \<subseteq> set (map snd (sort_key fst kvs))"
    by (rule set_take_subset)
  also have "\<dots> = set (map snd kvs)"
    by simp
  finally show ?thesis
    using draw_keys_snd [OF k] by (simp add: rand_subset_def k take_map)
qed

lemma rand_subset_all:
  assumes "length lst \<le> nu"
  shows "set (fst (rand_subset E lst nu r)) = set lst"
proof -
  obtain kvs r' where k: "draw_keys (urandom E) lst r = (kvs, r')"
    by (cases "draw_keys (urandom E) lst r")
  have m: "map snd kvs = lst"
    using draw_keys_snd [OF k] .
  then have "length kvs = length lst"
    by (metis length_map)
  then have "take nu (sort_key fst kvs) = sort_key fst kvs"
    using assms by simp
  then have "set (fst (rand_subset E lst nu r)) = set (map snd (sort_key fst kvs))"
    by (simp add: rand_subset_def k)
  also have "\<dots> = set (map snd kvs)"
    by simp
  finally show ?thesis
    using m by simp
qed

text \<open>
  C6. When the public registry holds at least 5 node ids (a dictionary: its keys are
  pairwise distinct), the route that \<open>send_message\<close> selects has exactly 5 ids, they are
  pairwise distinct, and each is a key of the registry.
\<close>

theorem select_route_five_distinct_registered:
  assumes "distinct (map fst (pkiPub (heap w ! self)))"
    and "5 \<le> length (pkiPub (heap w ! self))"
  shows "length (fst (select_route E self w)) = 5
    \<and> distinct (fst (select_route E self w))
    \<and> set (fst (select_route E self w)) \<subseteq> fst ` set (pkiPub (heap w ! self))"
proof -
  have "length (fst (select_route E self w)) = 5"
    using assms(2) by (simp add: select_route_def rand_subset_length)
  moreover have "distinct (fst (select_route E self w))"
    unfolding select_route_def using assms(1) by (rule rand_subset_distinct)
  moreover have "set (fst (select_route E self w)) \<subseteq> fst ` set (pkiPub (heap w ! self))"
    using rand_subset_subset [of E "map fst (pkiPub (heap w ! self))" 5 "rng w"]
    by (simp add: select_route_def)
  ultimately show ?thesis
    by simp
qed

theorem select_route_five_distinct_registered_witness:
  "distinct (map fst (pkiPub (heap world10 ! 0)))
    \<and> 5 \<le> length (pkiPub (heap world10 ! 0))
    \<and> fst (select_route toy 0 world10) = [7, 4, 1, 9, 6]
    \<and> length (fst (select_route toy 0 world10)) = 5
    \<and> distinct (fst (select_route toy 0 world10))
    \<and> set (fst (select_route toy 0 world10)) \<subseteq> fst ` set (pkiPub (heap world10 ! 0))"
proof -
  have d: "distinct (map fst (pkiPub (heap world10 ! 0)))"
    by code_simp
  have l: "5 \<le> length (pkiPub (heap world10 ! 0))"
    by code_simp
  have r: "fst (select_route toy 0 world10) = [7, 4, 1, 9, 6]"
    by code_simp
  show ?thesis
    using select_route_five_distinct_registered [OF d l, of toy] d l r by simp
qed

section \<open>The /mix endpoint: a failure\<close>

text \<open>
  C9. A request whose body the JSON parser rejects: the handler's \<^verbatim>\<open>except\<close> branch
  passes the exception object to \<^verbatim>\<open>JSONResponse\<close>, the rendering raises TypeError, and
  the exception leaves the handler. No response with status 200 is returned.
\<close>

theorem mix_unparsable_body_raises:
  "mix_incoming_messages E \<lparr>json_body = Inl e\<rparr> w =
     Some (Inl (PyExc ''TypeError''
                  (''Object of type '' @ exc_class e @ '' is not JSON serializable'')), w)"
  by (simp add: mix_incoming_messages_def JSONResponse_def)

section \<open>The relay loop and its iterations\<close>

text \<open>
  \<open>process_loop\<close> returns a result exactly when some number of iterations does, and never
  returns exactly when no number of iterations does.
\<close>

lemma run_hops_loop:
  "run_hops E self w n st = Some r \<Longrightarrow> process_loop E self w st = Some r"
proof (induction n arbitrary: st)
  case 0
  then show ?case by simp
next
  case (Suc n)
  show ?case
  proof (cases "process_hop E self w st")
    case (Return p)
    then show ?thesis using Suc.prems
      by (subst process_loop.simps) (simp split: prod.splits)
  next
    case (Raise e)
    then show ?thesis using Suc.prems
      by (subst process_loop.simps) simp
  next
    case (Continue st')
    then have "run_hops E self w n st' = Some r" using Suc.prems by simp
    then have "process_loop E self w st' = Some r" by (rule Suc.IH)
    then show ?thesis using Continue
      by (subst process_loop.simps) simp
  qed
qed

lemma loop_run_hops:
  assumes "process_loop E self w st = Some r"
  shows "\<exists>n. run_hops E self w n st = Some r"
proof (rule process_loop.raw_induct
          [where P = "\<lambda>E self w st r. \<exists>n. run_hops E self w n st = Some r", OF _ assms])
  fix loop E self w st r
  assume IH: "\<And>E self w st r. loop E self w st = Some r \<Longrightarrow> \<exists>n. run_hops E self w n st = Some r"
    and body: "(case process_hop E self w st of
                    Return (text, w') \<Rightarrow> Some (Inr text, w')
                  | Raise e \<Rightarrow> Some (Inl e, w)
                  | Continue st' \<Rightarrow> loop E self w st') = Some r"
  show "\<exists>n. run_hops E self w n st = Some r"
  proof (cases "process_hop E self w st")
    case (Return p)
    then have "run_hops E self w (Suc 0) st = Some r"
      using body by (simp split: prod.splits)
    then show ?thesis by blast
  next
    case (Raise e)
    then have "run_hops E self w (Suc 0) st = Some r"
      using body by simp
    then show ?thesis by blast
  next
    case (Continue st')
    then have "loop E self w st' = Some r" using body by simp
    then obtain n where "run_hops E self w n st' = Some r" using IH by blast
    then have "run_hops E self w (Suc n) st = Some r" using Continue by simp
    then show ?thesis by blast
  qed
qed

lemma loop_None_iff:
  "process_loop E self w st = None \<longleftrightarrow> (\<forall>n. run_hops E self w n st = None)"
proof
  assume l: "process_loop E self w st = None"
  show "\<forall>n. run_hops E self w n st = None"
  proof
    fix n
    show "run_hops E self w n st = None"
    proof (cases "run_hops E self w n st")
      case None
      then show ?thesis .
    next
      case (Some r)
      then show ?thesis using run_hops_loop [OF Some] l by simp
    qed
  qed
next
  assume a: "\<forall>n. run_hops E self w n st = None"
  show "process_loop E self w st = None"
  proof (cases "process_loop E self w st")
    case None
    then show ?thesis .
  next
    case (Some r)
    then show ?thesis using loop_run_hops [OF Some] a by simp
  qed
qed

lemma relay_hops_run:
  "relay_hops E self w k st = Some st' \<Longrightarrow> run_hops E self w (k + n) st = run_hops E self w n st'"
  by (induction k arbitrary: st) (auto split: step.splits)

lemma relay_hops_short:
  "relay_hops E self w k st = Some st' \<Longrightarrow> j \<le> k \<Longrightarrow> run_hops E self w j st = None"
proof (induction k arbitrary: st j)
  case 0
  then show ?case by simp
next
  case (Suc k)
  then show ?case by (cases j) (auto split: step.splits)
qed

lemma relay_hops_loop:
  assumes "relay_hops E self w k st = Some st'"
  shows "process_loop E self w st = process_loop E self w st'"
proof (cases "process_loop E self w st'")
  case None
  then have "\<forall>n. run_hops E self w n st' = None" by (simp add: loop_None_iff)
  have "\<forall>n. run_hops E self w n st = None"
  proof
    fix n
    show "run_hops E self w n st = None"
    proof (cases "n \<le> k")
      case True
      then show ?thesis using relay_hops_short [OF assms] by simp
    next
      case False
      then have "n = k + (n - k)" by simp
      then have "run_hops E self w n st = run_hops E self w (n - k) st'"
        using relay_hops_run [OF assms, of "n - k"] by simp
      then show ?thesis using \<open>\<forall>n. run_hops E self w n st' = None\<close> by simp
    qed
  qed
  then have "process_loop E self w st = None" by (simp add: loop_None_iff)
  then show ?thesis using None by simp
next
  case (Some r)
  then obtain n where "run_hops E self w n st' = Some r" using loop_run_hops by blast
  then have "run_hops E self w (k + n) st = Some r" using relay_hops_run [OF assms] by simp
  then show ?thesis using Some run_hops_loop by simp
qed


lemma process_hop_relay:
  assumes "sphinx_process E x header delta = Inr (tag, info, (header', delta'), mac_key)"
    and "PFdecode E info = Inr (Relay addr)"
    and "map_of (pkiPriv (heap w ! self)) addr = Some entry"
  shows "process_hop E self w (x, header, delta) = Continue (pki_x entry, header', delta')"
  using assms by (simp add: process_hop_def dict_item_def)

lemma process_hop_unknown:
  assumes "sphinx_process E x header delta = Inr (tag, info, pkt, mac_key)"
    and "PFdecode E info = Inr (Relay addr)"
    and "map_of (pkiPriv (heap w ! self)) addr = None"
  shows "process_hop E self w (x, header, delta) = Raise (KeyError addr)"
  using assms by (cases pkt) (simp add: process_hop_def dict_item_def)

lemma process_hop_deliver:
  assumes "sphinx_process E x header delta = Inr (tag, info, (header', delta'), mac_key)"
    and "PFdecode E info = Inr Dest"
    and "receive_forward E mac_key delta' = Inr (db, mb)"
    and "bytes_decode E db = Inr dt"
    and "bytes_decode E mb = Inr mt"
  shows "process_hop E self w (x, header, delta) = Return (mt, print_line (received_line dt mt) w)"
  using assms by (simp add: process_hop_def)

lemma peels_first_registered:
  "peels E priv (n # ns) header delta db mb \<Longrightarrow> \<exists>entry. map_of priv n = Some entry"
  by (cases "map_of priv n") auto

lemma peels_last:
  assumes "peels E priv [n] header delta db mb"
    and "map_of priv n = Some entry"
  shows "\<exists>tag info header' delta' mac_key.
           sphinx_process E (pki_x entry) header delta = Inr (tag, info, (header', delta'), mac_key)
         \<and> PFdecode E info = Inr Dest
         \<and> receive_forward E mac_key delta' = Inr (db, mb)"
proof (cases "sphinx_process E (pki_x entry) header delta")
  case (Inl e)
  then show ?thesis using assms by simp
next
  case (Inr res)
  obtain tag info header' delta' mac_key where "res = (tag, info, (header', delta'), mac_key)"
    by (metis surj_pair)
  then show ?thesis using assms Inr by simp
qed

lemma peels_next:
  assumes "peels E priv (n # n' # ns) header delta db mb"
    and "map_of priv n = Some entry"
  shows "\<exists>tag info header' delta' mac_key.
           sphinx_process E (pki_x entry) header delta = Inr (tag, info, (header', delta'), mac_key)
         \<and> PFdecode E info = Inr (Relay n')
         \<and> peels E priv (n' # ns) header' delta' db mb"
proof (cases "sphinx_process E (pki_x entry) header delta")
  case (Inl e)
  then show ?thesis using assms by simp
next
  case (Inr res)
  obtain tag info header' delta' mac_key where "res = (tag, info, (header', delta'), mac_key)"
    by (metis surj_pair)
  then show ?thesis using assms Inr by simp
qed

lemma peels_relay_hops:
  assumes "peels E (pkiPriv (heap w ! self)) (n # ns) header delta db mb"
    and "map_of (pkiPriv (heap w ! self)) n = Some entry"
  shows "\<exists>x h d tag info header' delta' mac_key.
           relay_hops E self w (length ns) (pki_x entry, header, delta) = Some (x, h, d)
         \<and> sphinx_process E x h d = Inr (tag, info, (header', delta'), mac_key)
         \<and> PFdecode E info = Inr Dest
         \<and> receive_forward E mac_key delta' = Inr (db, mb)"
  using assms
proof (induction ns arbitrary: n entry header delta)
  case Nil
  from peels_last [OF Nil.prems] show ?case
    by simp
next
  case (Cons n' ns')
  from peels_next [OF Cons.prems] obtain tag info header' delta' mac_key where
      sp: "sphinx_process E (pki_x entry) header delta = Inr (tag, info, (header', delta'), mac_key)"
    and pf: "PFdecode E info = Inr (Relay n')"
    and rest: "peels E (pkiPriv (heap w ! self)) (n' # ns') header' delta' db mb"
    by blast
  from peels_first_registered [OF rest] obtain entry' where
    e': "map_of (pkiPriv (heap w ! self)) n' = Some entry'" by blast
  have hop: "process_hop E self w (pki_x entry, header, delta) = Continue (pki_x entry', header', delta')"
    using process_hop_relay [OF sp pf e'] .
  from Cons.IH [OF rest e'] show ?case
    using hop by simp
qed

lemma peels_run_hops:
  assumes "peels E (pkiPriv (heap w ! self)) (n # ns) header delta db mb"
    and "map_of (pkiPriv (heap w ! self)) n = Some entry"
    and "bytes_decode E db = Inr dt"
    and "bytes_decode E mb = Inr mt"
  shows "run_hops E self w (Suc (length ns)) (pki_x entry, header, delta)
           = Some (Inr mt, print_line (received_line dt mt) w)"
    and "j \<le> length ns \<Longrightarrow> run_hops E self w j (pki_x entry, header, delta) = None"
proof -
  from peels_relay_hops [OF assms(1,2)] obtain x h d tag info header' delta' mac_key where
    rh: "relay_hops E self w (length ns) (pki_x entry, header, delta) = Some (x, h, d)"
    and sp: "sphinx_process E x h d = Inr (tag, info, (header', delta'), mac_key)"
    and pf: "PFdecode E info = Inr Dest"
    and rf: "receive_forward E mac_key delta' = Inr (db, mb)"
    by blast
  have "run_hops E self w (Suc 0) (x, h, d) = Some (Inr mt, print_line (received_line dt mt) w)"
    using process_hop_deliver [OF sp pf rf assms(3,4)] by simp
  then show "run_hops E self w (Suc (length ns)) (pki_x entry, header, delta)
           = Some (Inr mt, print_line (received_line dt mt) w)"
    using relay_hops_run [OF rh, of "Suc 0"] by simp
  show "j \<le> length ns \<Longrightarrow> run_hops E self w j (pki_x entry, header, delta) = None"
    using relay_hops_short [OF rh] by simp
qed

lemma peels_process_message:
  assumes "peels E (pkiPriv (heap w ! self)) use_nodes header delta db mb"
    and "bytes_decode E db = Inr dt"
    and "bytes_decode E mb = Inr mt"
  shows "process_message E self header delta use_nodes w
           = Some (Inr mt, print_line (received_line dt mt) w)"
proof (cases use_nodes)
  case Nil
  then show ?thesis using assms(1) by simp
next
  case (Cons n ns)
  have p: "peels E (pkiPriv (heap w ! self)) (n # ns) header delta db mb"
    using assms(1) Cons by simp
  from peels_first_registered [OF p] obtain entry where
    e: "map_of (pkiPriv (heap w ! self)) n = Some entry" ..
  have "run_hops E self w (Suc (length ns)) (pki_x entry, header, delta)
          = Some (Inr mt, print_line (received_line dt mt) w)"
    using p e assms(2,3) by (rule peels_run_hops(1))
  then have "process_loop E self w (pki_x entry, header, delta)
          = Some (Inr mt, print_line (received_line dt mt) w)"
    by (rule run_hops_loop)
  then show ?thesis
    using Cons e by (simp add: process_message_def dict_item_def)
qed

section \<open>The constructor\<close>

lemma init_loop_Cons:
  "initialize_nodes_loop E self (i # is) w =
     (case gensecret E (rng w) of
        (Inl e, r) \<Rightarrow> (Inl e, w\<lparr>rng := r\<rparr>)
      | (Inr sk, r) \<Rightarrow>
          (case expon_g E sk of
             Inl e \<Rightarrow> (Inl e, w\<lparr>rng := r\<rparr>)
           | Inr pk \<Rightarrow>
               initialize_nodes_loop E self is
                 (w\<lparr>rng := r,
                    heap := (heap w)[self := (heap w ! self)
                      \<lparr>pkiPriv := AList.update i (pki_entry i (Some sk) pk) (pkiPriv (heap w ! self)),
                       pkiPub := AList.update i (pki_entry i None pk) (pkiPub (heap w ! self))\<rparr>]\<rparr>)))"
  by (simp add: Let_def split: prod.splits sum.splits)

declare initialize_nodes_loop.simps(2) [simp del]

lemma init_loop_frame:
  "initialize_nodes_loop E self is w = (r, w') \<Longrightarrow>
     stdout w' = stdout w \<and> (\<exists>obj. heap w' = (heap w)[self := obj])"
proof (induction "is" arbitrary: w)
  case Nil
  then show ?case by (auto intro: exI [of _ "heap w ! self"])
next
  case (Cons i "is")
  show ?case
  proof (cases "gensecret E (rng w)")
    case (Pair g r1)
    show ?thesis
    proof (cases g)
      case (Inl e)
      then show ?thesis using Cons.prems Pair
        by (auto simp: init_loop_Cons intro: exI [of _ "heap w ! self"])
    next
      case (Inr sk)
      show ?thesis
      proof (cases "expon_g E sk")
        case (Inl e)
        then show ?thesis using Cons.prems Pair Inr
          by (auto simp: init_loop_Cons intro: exI [of _ "heap w ! self"])
      next
        case (Inr pk)
        then show ?thesis using Cons.prems Pair \<open>g = Inr sk\<close> Cons.IH
          by (fastforce simp: init_loop_Cons)
      qed
    qed
  qed
qed

lemma init_loop_invariant:
  assumes "initialize_nodes_loop E self is w = (r, w')"
    and "self < length (heap w)"
    and "P (heap w ! self)"
    and step: "\<And>obj i sk pk. P obj \<Longrightarrow>
       P (obj\<lparr>pkiPriv := AList.update i (pki_entry i (Some sk) pk) (pkiPriv obj),
              pkiPub := AList.update i (pki_entry i None pk) (pkiPub obj)\<rparr>)"
  shows "P (heap w' ! self)"
  using assms(1,2,3)
proof (induction "is" arbitrary: w)
  case Nil
  then show ?case by simp
next
  case (Cons i "is")
  show ?case
  proof (cases "gensecret E (rng w)")
    case (Pair g r1)
    show ?thesis
    proof (cases g)
      case (Inl e)
      then show ?thesis using Cons.prems Pair by (auto simp: init_loop_Cons)
    next
      case (Inr sk)
      show ?thesis
      proof (cases "expon_g E sk")
        case (Inl e)
        then show ?thesis using Cons.prems Pair Inr by (auto simp: init_loop_Cons)
      next
        case (Inr pk)
        let ?obj = "(heap w ! self)
                      \<lparr>pkiPriv := AList.update i (pki_entry i (Some sk) pk) (pkiPriv (heap w ! self)),
                       pkiPub := AList.update i (pki_entry i None pk) (pkiPub (heap w ! self))\<rparr>"
        let ?w = "w\<lparr>rng := r1, heap := (heap w)[self := ?obj]\<rparr>"
        have run: "initialize_nodes_loop E self is ?w = (r, w')"
          using Cons.prems(1) Pair \<open>g = Inr sk\<close> Inr by (simp add: init_loop_Cons)
        have "P ?obj" using Cons.prems(3) by (rule step)
        then have "P (heap ?w ! self)" using Cons.prems(2) by simp
        moreover have "self < length (heap ?w)" using Cons.prems(2) by simp
        ultimately show ?thesis using Cons.IH [OF run] by blast
      qed
    qed
  qed
qed

lemma init_loop_keys:
  assumes "initialize_nodes_loop E self is w = (Inr u, w')"
    and "self < length (heap w)"
    and "distinct (map fst (pkiPriv (heap w ! self)) @ is)"
    and "distinct (map fst (pkiPub (heap w ! self)) @ is)"
  shows "map fst (pkiPriv (heap w' ! self)) = map fst (pkiPriv (heap w ! self)) @ is
       \<and> map fst (pkiPub (heap w' ! self)) = map fst (pkiPub (heap w ! self)) @ is"
  using assms
proof (induction "is" arbitrary: w)
  case Nil
  then show ?case by simp
next
  case (Cons i "is")
  show ?case
  proof (cases "gensecret E (rng w)")
    case (Pair g r1)
    show ?thesis
    proof (cases g)
      case (Inl e)
      then show ?thesis using Cons.prems Pair by (auto simp: init_loop_Cons)
    next
      case (Inr sk)
      show ?thesis
      proof (cases "expon_g E sk")
        case (Inl e)
        then show ?thesis using Cons.prems Pair Inr by (auto simp: init_loop_Cons)
      next
        case (Inr pk)
        let ?obj = "(heap w ! self)
                      \<lparr>pkiPriv := AList.update i (pki_entry i (Some sk) pk) (pkiPriv (heap w ! self)),
                       pkiPub := AList.update i (pki_entry i None pk) (pkiPub (heap w ! self))\<rparr>"
        let ?w = "w\<lparr>rng := r1, heap := (heap w)[self := ?obj]\<rparr>"
        have run: "initialize_nodes_loop E self is ?w = (Inr u, w')"
          using Cons.prems(1) Pair \<open>g = Inr sk\<close> Inr by (simp add: init_loop_Cons)
        have obj: "heap ?w ! self = ?obj" using Cons.prems(2) by simp
        have k1: "map fst (pkiPriv ?obj) = map fst (pkiPriv (heap w ! self)) @ [i]"
          using Cons.prems(3) by (simp add: update_keys)
        have k2: "map fst (pkiPub ?obj) = map fst (pkiPub (heap w ! self)) @ [i]"
          using Cons.prems(4) by (simp add: update_keys)
        have d1: "distinct (map fst (pkiPriv (heap ?w ! self)) @ is)"
          using Cons.prems(3) by (simp only: obj k1) auto
        have d2: "distinct (map fst (pkiPub (heap ?w ! self)) @ is)"
          using Cons.prems(4) by (simp only: obj k2) auto
        have "self < length (heap ?w)" using Cons.prems(2) by simp
        from Cons.IH [OF run this d1 d2] show ?thesis
          by (simp only: obj k1 k2) simp
      qed
    qed
  qed
qed

lemma Mixnet_unfold:
  "Mixnet E num w =
     (case SphinxParams E of
        Inl e \<Rightarrow>
          (Inl (PyExc ''RuntimeError'' (''Error initializing Mixnet: '' @ exc_str e)),
           w\<lparr>heap := heap w @ [\<lparr>pkiPriv = [], pkiPub = []\<rparr>]\<rparr>)
      | Inr u \<Rightarrow>
          (case initialize_nodes_loop E (length (heap w))
                  (py_range (case num of None \<Rightarrow> 10 | Some n \<Rightarrow> n))
                  (w\<lparr>heap := heap w @ [\<lparr>pkiPriv = [], pkiPub = []\<rparr>]\<rparr>) of
             (Inl e, w') \<Rightarrow>
               (Inl (PyExc ''RuntimeError''
                  (''Error initializing Mixnet: Error initializing nodes: '' @ exc_str e)), w')
           | (Inr u, w') \<Rightarrow> (Inr (length (heap w)), w')))"
  by (simp add: Mixnet_def Mixnet_init_def initialize_nodes_def Let_def
      split: sum.splits prod.splits)

lemma Mixnet_frame:
  assumes "Mixnet E num w = (r, w')"
  shows "stdout w' = stdout w \<and> (\<exists>obj. heap w' = heap w @ [obj])"
proof (cases "SphinxParams E")
  case (Inl e)
  then show ?thesis using assms by (auto simp: Mixnet_unfold)
next
  case (Inr u)
  let ?n = "case num of None \<Rightarrow> 10 | Some n \<Rightarrow> n"
  let ?w0 = "w\<lparr>heap := heap w @ [\<lparr>pkiPriv = [], pkiPub = []\<rparr>]\<rparr>"
  obtain rl wl where l: "initialize_nodes_loop E (length (heap w)) (py_range ?n) ?w0 = (rl, wl)"
    by (cases "initialize_nodes_loop E (length (heap w)) (py_range ?n) ?w0")
  have "w' = wl" using assms Inr l by (auto simp: Mixnet_unfold split: sum.splits)
  moreover from init_loop_frame [OF l] obtain obj where
    "stdout wl = stdout ?w0" "heap wl = (heap ?w0)[length (heap w) := obj]" by blast
  ultimately show ?thesis by simp
qed

lemma Mixnet_success:
  assumes "Mixnet E num w = (Inr self, w')"
  shows "self = length (heap w)"
    and "\<exists>u. initialize_nodes_loop E (length (heap w))
            (py_range (case num of None \<Rightarrow> 10 | Some n \<Rightarrow> n))
            (w\<lparr>heap := heap w @ [\<lparr>pkiPriv = [], pkiPub = []\<rparr>]\<rparr>) = (Inr u, w')"
  using assms by (auto simp: Mixnet_unfold split: sum.splits prod.splits)

lemma Mixnet_keys:
  assumes "Mixnet E num w = (Inr self, w')"
  shows "map fst (pkiPriv (heap w' ! self)) = py_range (case num of None \<Rightarrow> 10 | Some n \<Rightarrow> n)"
    and "map fst (pkiPub (heap w' ! self)) = py_range (case num of None \<Rightarrow> 10 | Some n \<Rightarrow> n)"
proof -
  let ?n = "case num of None \<Rightarrow> 10 | Some n \<Rightarrow> n"
  let ?w0 = "w\<lparr>heap := heap w @ [\<lparr>pkiPriv = [], pkiPub = []\<rparr>]\<rparr>"
  from Mixnet_success [OF assms] obtain u where
    s: "self = length (heap w)"
    and l: "initialize_nodes_loop E (length (heap w)) (py_range ?n) ?w0 = (Inr u, w')"
    by blast
  have "length (heap w) < length (heap ?w0)" by simp
  moreover have "distinct (map fst (pkiPriv (heap ?w0 ! length (heap w))) @ py_range ?n)"
    by (simp add: py_range_def)
  moreover have "distinct (map fst (pkiPub (heap ?w0 ! length (heap w))) @ py_range ?n)"
    by (simp add: py_range_def)
  ultimately have
    "map fst (pkiPriv (heap w' ! length (heap w)))
       = map fst (pkiPriv (heap ?w0 ! length (heap w))) @ py_range ?n
     \<and> map fst (pkiPub (heap w' ! length (heap w)))
       = map fst (pkiPub (heap ?w0 ! length (heap w))) @ py_range ?n"
    by (rule init_loop_keys [OF l])
  then show "map fst (pkiPriv (heap w' ! self)) = py_range ?n"
    and "map fst (pkiPub (heap w' ! self)) = py_range ?n"
    using s by simp_all
qed

lemma update_pub_none:
  assumes "\<forall>k e. map_of al k = Some e \<longrightarrow> pki_x e = None"
  shows "\<forall>k e. map_of (AList.update i (pki_entry i None pk) al) k = Some e \<longrightarrow> pki_x e = None"
  using assms by (auto simp: update_conv')

lemma Mixnet_pub_none:
  assumes "Mixnet E num w = (Inr self, w')"
  shows "\<forall>k e. map_of (pkiPub (heap w' ! self)) k = Some e \<longrightarrow> pki_x e = None"
proof -
  let ?n = "case num of None \<Rightarrow> 10 | Some n \<Rightarrow> n"
  let ?w0 = "w\<lparr>heap := heap w @ [\<lparr>pkiPriv = [], pkiPub = []\<rparr>]\<rparr>"
  let ?P = "\<lambda>obj. \<forall>k e. map_of (pkiPub obj) k = Some e \<longrightarrow> pki_x e = None"
  from Mixnet_success [OF assms] obtain u where
    s: "self = length (heap w)"
    and l: "initialize_nodes_loop E (length (heap w)) (py_range ?n) ?w0 = (Inr u, w')"
    by blast
  have "?P (heap w' ! length (heap w))"
  proof (rule init_loop_invariant [OF l, where P = ?P])
    show "length (heap w) < length (heap ?w0)" by simp
    show "?P (heap ?w0 ! length (heap w))" by simp
    show "\<And>obj i sk pk. ?P obj \<Longrightarrow>
       ?P (obj\<lparr>pkiPriv := AList.update i (pki_entry i (Some sk) pk) (pkiPriv obj),
              pkiPub := AList.update i (pki_entry i None pk) (pkiPub obj)\<rparr>)"
      using update_pub_none by simp
  qed
  then show ?thesis using s by simp
qed

lemma Mixnet_priv_some:
  assumes "Mixnet E num w = (Inr self, w')"
  shows "\<forall>k e. map_of (pkiPriv (heap w' ! self)) k = Some e \<longrightarrow> pki_x e \<noteq> None"
proof -
  let ?n = "case num of None \<Rightarrow> 10 | Some n \<Rightarrow> n"
  let ?w0 = "w\<lparr>heap := heap w @ [\<lparr>pkiPriv = [], pkiPub = []\<rparr>]\<rparr>"
  let ?P = "\<lambda>obj. \<forall>k e. map_of (pkiPriv obj) k = Some e \<longrightarrow> pki_x e \<noteq> None"
  from Mixnet_success [OF assms] obtain u where
    s: "self = length (heap w)"
    and l: "initialize_nodes_loop E (length (heap w)) (py_range ?n) ?w0 = (Inr u, w')"
    by blast
  have "?P (heap w' ! length (heap w))"
  proof (rule init_loop_invariant [OF l, where P = ?P])
    show "length (heap w) < length (heap ?w0)" by simp
    show "?P (heap ?w0 ! length (heap w))" by simp
    show "\<And>obj i sk pk. ?P obj \<Longrightarrow>
       ?P (obj\<lparr>pkiPriv := AList.update i (pki_entry i (Some sk) pk) (pkiPriv obj),
              pkiPub := AList.update i (pki_entry i None pk) (pkiPub obj)\<rparr>)"
      by (auto simp: update_conv')
  qed
  then show ?thesis using s by simp
qed

lemma py_range_10: "py_range 10 = [0, 1, 2, 3, 4, 5, 6, 7, 8, 9]"
  by (simp add: py_range_def upto_rec1)

section \<open>Sending a message\<close>

lemma build_packet_ok:
  assumes "build_packet E self message dest w = (Inr (use_nodes, header, delta), w1)"
  shows "use_nodes = fst (select_route E self w)" and "heap w1 = heap w" and "stdout w1 = stdout w"
  using assms
  by (auto simp: build_packet_def Let_def split: prod.splits sum.splits)

lemma build_packet_frame:
  assumes "build_packet E self message dest w = (r, w1)"
  shows "heap w1 = heap w" and "stdout w1 = stdout w"
  using assms
  by (auto simp: build_packet_def Let_def split: prod.splits sum.splits)





section \<open>The relay loop has no hop bound\<close>

lemma relay_forever_hop:
  "process_hop (relay_forever 0) 0 world10 (Some 1, [], ''d|m'') = Continue (Some 1, [], ''d|m'')"
  by code_simp

lemma stuck_run_hops:
  assumes "process_hop E self w st = Continue st"
  shows "run_hops E self w n st = None"
  using assms by (induction n) simp_all

text \<open>
  C2 as stated fails. With a peel that answers every packet with a relay instruction to
  the registered node 0, the driver does not end with a RoutingLoopError after the route's
  length in hops: it never returns.
\<close>

theorem relay_forever_never_returns:
  "process_message (relay_forever 0) 0 [] ''d|m'' [0] world10 = None"
proof -
  have "\<forall>n. run_hops (relay_forever 0) 0 world10 n (Some 1, [], ''d|m'') = None"
    using stuck_run_hops [OF relay_forever_hop] by simp
  then have l: "process_loop (relay_forever 0) 0 world10 (Some 1, [], ''d|m'') = None"
    by (simp add: loop_None_iff)
  have d: "dict_item (pkiPriv (heap world10 ! 0)) 0 = Inr (pki_entry 0 (Some 1) 101)"
    by code_simp
  show ?thesis
    unfolding process_message_def by (simp only: d l list.case sum.case pki_entry.sel option.case)
qed

text \<open>
  C2, as the code has it. The relay loop has no hop bound and no RoutingLoopError. It
  leaves the loop at the first iteration that delivers or raises, and it never returns
  when no iteration does. On a packet that keeps the round-trip contract along a route of
  length \<open>L\<close> it delivers at iteration \<open>L\<close> and not before.
\<close>

theorem relay_loop_has_no_bound:
  "(process_loop E self w st = Some r \<longleftrightarrow> (\<exists>k. run_hops E self w k st = Some r))
   \<and> (process_loop E self w st = None \<longleftrightarrow> (\<forall>k. run_hops E self w k st = None))
   \<and> (peels E (pkiPriv (heap w ! self)) (n # ns) header delta db mb
        \<and> map_of (pkiPriv (heap w ! self)) n = Some entry
        \<and> bytes_decode E db = Inr dt \<and> bytes_decode E mb = Inr mt
      \<longrightarrow> run_hops E self w (length (n # ns)) (pki_x entry, header, delta)
            = Some (Inr mt, print_line (received_line dt mt) w)
        \<and> run_hops E self w (length ns) (pki_x entry, header, delta) = None
        \<and> process_message E self header delta (n # ns) w
            = Some (Inr mt, print_line (received_line dt mt) w))"
proof -
  have a: "process_loop E self w st = Some r \<longleftrightarrow> (\<exists>k. run_hops E self w k st = Some r)"
    using loop_run_hops run_hops_loop by blast
  have b: "process_loop E self w st = None \<longleftrightarrow> (\<forall>k. run_hops E self w k st = None)"
    by (rule loop_None_iff)
  have c: "run_hops E self w (length (n # ns)) (pki_x entry, header, delta)
            = Some (Inr mt, print_line (received_line dt mt) w)
        \<and> run_hops E self w (length ns) (pki_x entry, header, delta) = None
        \<and> process_message E self header delta (n # ns) w
            = Some (Inr mt, print_line (received_line dt mt) w)"
    if p: "peels E (pkiPriv (heap w ! self)) (n # ns) header delta db mb"
      and e: "map_of (pkiPriv (heap w ! self)) n = Some entry"
      and d1: "bytes_decode E db = Inr dt" and d2: "bytes_decode E mb = Inr mt"
    using peels_run_hops(1) [OF p e d1 d2] peels_run_hops(2) [OF p e d1 d2, of "length ns"]
      peels_process_message [OF p d1 d2] by simp
  show ?thesis
    using a b c by blast
qed

theorem relay_loop_has_no_bound_witness:
  "peels toy (pkiPriv (heap world10 ! 0)) [7, 4, 1, 9, 6]
        [(122, ''Rxxxx''), (113, ''Rx''), (104, ''Rxxxxxxxxx''), (128, ''Rxxxxxx''), (119, ''D'')]
        ''destination_node|hello'' ''destination_node'' ''hello''
   \<and> map_of (pkiPriv (heap world10 ! 0)) 7 = Some (pki_entry 7 (Some 22) 122)
   \<and> run_hops toy 0 world10 5
        (Some 22, [(122, ''Rxxxx''), (113, ''Rx''), (104, ''Rxxxxxxxxx''), (128, ''Rxxxxxx''), (119, ''D'')],
         ''destination_node|hello'')
       = Some (Inr ''hello'', print_line (received_line ''destination_node'' ''hello'') world10)
   \<and> run_hops toy 0 world10 4
        (Some 22, [(122, ''Rxxxx''), (113, ''Rx''), (104, ''Rxxxxxxxxx''), (128, ''Rxxxxxx''), (119, ''D'')],
         ''destination_node|hello'')
       = None"
proof -
  have p: "peels toy (pkiPriv (heap world10 ! 0)) [7, 4, 1, 9, 6]
        [(122, ''Rxxxx''), (113, ''Rx''), (104, ''Rxxxxxxxxx''), (128, ''Rxxxxxx''), (119, ''D'')]
        ''destination_node|hello'' ''destination_node'' ''hello''"
    by code_simp
  have e: "map_of (pkiPriv (heap world10 ! 0)) 7 = Some (pki_entry 7 (Some 22) 122)"
    by code_simp
  have d1: "bytes_decode toy ''destination_node'' = Inr ''destination_node''"
    by (simp add: toy_def)
  have d2: "bytes_decode toy ''hello'' = Inr ''hello''"
    by (simp add: toy_def)
  let ?e = "pki_entry 7 (Some 22) 122 :: (nat, nat) pki_entry"
  let ?h = "[(122, ''Rxxxx''), (113, ''Rx''), (104, ''Rxxxxxxxxx''), (128, ''Rxxxxxx''), (119, ''D'')]"
  have l5: "length [7, 4, 1, 9, 6 :: int] = 5" and l4: "length [4, 1, 9, 6 :: int] = 4"
    by simp_all
  have "peels toy (pkiPriv (heap world10 ! 0)) (7 # [4, 1, 9, 6]) ?h
          ''destination_node|hello'' ''destination_node'' ''hello''
        \<and> map_of (pkiPriv (heap world10 ! 0)) 7 = Some (pki_entry 7 (Some 22) 122)
        \<and> bytes_decode toy ''destination_node'' = Inr ''destination_node''
        \<and> bytes_decode toy ''hello'' = Inr ''hello''
      \<longrightarrow> run_hops toy 0 world10 (length (7 # [4, 1, 9, 6 :: int]))
              (pki_x ?e, ?h, ''destination_node|hello'')
            = Some (Inr ''hello'', print_line (received_line ''destination_node'' ''hello'') world10)
        \<and> run_hops toy 0 world10 (length [4, 1, 9, 6 :: int])
              (pki_x ?e, ?h, ''destination_node|hello'') = None
        \<and> process_message toy 0 ?h ''destination_node|hello'' (7 # [4, 1, 9, 6]) world10
            = Some (Inr ''hello'', print_line (received_line ''destination_node'' ''hello'') world10)"
    using relay_loop_has_no_bound [of toy 0 world10 undefined undefined 7 "[4, 1, 9, 6]" ?h
        "''destination_node|hello''" "''destination_node''" "''hello''"
        ?e "''destination_node''" "''hello''"]
    by (rule conjunct2 [THEN conjunct2])
  then have "run_hops toy 0 world10 (length (7 # [4, 1, 9, 6 :: int]))
              (pki_x ?e, ?h, ''destination_node|hello'')
            = Some (Inr ''hello'', print_line (received_line ''destination_node'' ''hello'') world10)
        \<and> run_hops toy 0 world10 (length [4, 1, 9, 6 :: int])
              (pki_x ?e, ?h, ''destination_node|hello'') = None"
    using p e d1 d2 by blast
  then show ?thesis
    using p e by (simp only: l5 l4 pki_entry.sel)
qed

section \<open>A relay instruction to an unknown node\<close>

text \<open>
  C4, as the code has it. When the peel at some hop, after any number of relayed hops,
  names a node id that is not in the registry, the dictionary lookup raises KeyError and
  \<open>process_message\<close> raises a plain \<^verbatim>\<open>Exception\<close> whose text is
  \<^verbatim>\<open>Error processing message: \<close> followed by the id. The run ends there.
\<close>

theorem unknown_next_hop_raises_plain_exception:
  assumes first: "map_of (pkiPriv (heap w ! self)) n = Some entry"
    and relayed: "relay_hops E self w k (pki_x entry, header, delta) = Some (x, h, d)"
    and peel: "sphinx_process E x h d = Inr (tag, info, pkt, mac_key)"
    and decode: "PFdecode E info = Inr (Relay addr)"
    and unknown: "map_of (pkiPriv (heap w ! self)) addr = None"
  shows "process_message E self header delta (n # ns) w =
           Some (Inl (PyExc ''Exception'' (''Error processing message: '' @ str_int addr)), w)"
proof -
  have "process_hop E self w (x, h, d) = Raise (KeyError addr)"
    using peel decode unknown by (rule process_hop_unknown)
  then have "run_hops E self w (Suc 0) (x, h, d) = Some (Inl (KeyError addr), w)"
    by simp
  then have "run_hops E self w (k + Suc 0) (pki_x entry, header, delta) = Some (Inl (KeyError addr), w)"
    using relay_hops_run [OF relayed, of "Suc 0"] by simp
  then have "process_loop E self w (pki_x entry, header, delta) = Some (Inl (KeyError addr), w)"
    by (rule run_hops_loop)
  then show ?thesis
    using first by (simp add: process_message_def dict_item_def KeyError_def)
qed

theorem unknown_next_hop_raises_plain_exception_witness:
  "map_of (pkiPriv (heap world10 ! 0)) 0 = Some (pki_entry 0 (Some 1) 101)
   \<and> relay_hops (relay_forever 99) 0 world10 0 (Some 1, [], ''d|m'') = Some (Some 1, [], ''d|m'')
   \<and> map_of (pkiPriv (heap world10 ! 0)) 99 = None
   \<and> process_message (relay_forever 99) 0 [] ''d|m'' [0] world10 =
        Some (Inl (PyExc ''Exception'' ''Error processing message: 99''), world10)"
proof -
  let ?e = "pki_entry 0 (Some 1) 101 :: (nat, nat) pki_entry"
  have first: "map_of (pkiPriv (heap world10 ! 0)) 0 = Some ?e"
    by code_simp
  have relayed: "relay_hops (relay_forever 99) 0 world10 0 (pki_x ?e, [], ''d|m'') = Some (Some 1, [], ''d|m'')"
    by simp
  have peel: "sphinx_process (relay_forever 99) (Some 1) [] ''d|m''
                = Inr (''tag'', CHR ''R'' # replicate 99 CHR ''x'', ([], ''d|m''), ''mac'')"
    by (simp add: relay_forever_def)
  have decode: "PFdecode (relay_forever 99) (CHR ''R'' # replicate 99 CHR ''x'') = Inr (Relay 99)"
    by (simp add: relay_forever_def toy_def toy_PFdecode_def)
  have unknown: "map_of (pkiPriv (heap world10 ! 0)) 99 = None"
    by code_simp
  have s: "str_int 99 = ''99''"
    by code_simp
  show ?thesis
    using unknown_next_hop_raises_plain_exception [OF first relayed peel decode unknown, of "[]"]
      first relayed unknown by (simp only: s pki_entry.sel) simp
qed

text \<open>
  C4 as stated fails. The error for an unknown next hop has the class \<^verbatim>\<open>Exception\<close>,
  the class of the error for a failed integrity check as well: no UnreachableNodeError,
  and only the text tells the two apart.
\<close>

theorem unknown_next_hop_same_class_as_bad_mac:
  "map_option (map_sum exc_class id \<circ> fst)
       (process_message (relay_forever 99) 0 [] ''d|m'' [0] world10) = Some (Inl ''Exception'')
   \<and> map_option (map_sum exc_class id \<circ> fst)
       (process_message toy 0 [] ''d|m'' [0] world10) = Some (Inl ''Exception'')
   \<and> process_message (relay_forever 99) 0 [] ''d|m'' [0] world10 =
        Some (Inl (PyExc ''Exception'' ''Error processing message: 99''), world10)
   \<and> process_message toy 0 [] ''d|m'' [0] world10 =
        Some (Inl (PyExc ''Exception'' ''Error processing message: MAC mismatch''), world10)"
  by code_simp

section \<open>Failures of a send\<close>

lemma process_message_raise_at_hop:
  assumes first: "map_of (pkiPriv (heap w ! self)) n = Some entry"
    and relayed: "relay_hops E self w k (pki_x entry, header, delta) = Some st"
    and raise: "process_hop E self w st = Raise e"
  shows "process_message E self header delta (n # ns) w =
           Some (Inl (PyExc ''Exception'' (''Error processing message: '' @ exc_str e)), w)"
proof -
  have "run_hops E self w (Suc 0) st = Some (Inl e, w)"
    using raise by simp
  then have "run_hops E self w (k + Suc 0) (pki_x entry, header, delta) = Some (Inl e, w)"
    using relay_hops_run [OF relayed, of "Suc 0"] by simp
  then have "process_loop E self w (pki_x entry, header, delta) = Some (Inl e, w)"
    by (rule run_hops_loop)
  then show ?thesis
    using first by (simp add: process_message_def dict_item_def)
qed

lemma send_message_raise_shape:
  assumes "send_message E self message dest w = Some (Inl e, w')"
  shows "\<exists>cause. e = PyExc ''Exception'' (''Error sending message: '' @ cause)"
proof (cases "build_packet E self message dest w")
  case (Pair r w1)
  show ?thesis
  proof (cases r)
    case (Inl e0)
    then show ?thesis using assms Pair by (auto simp: send_message_def)
  next
    case (Inr pkt)
    obtain use_nodes header delta where p: "pkt = (use_nodes, header, delta)"
      by (cases pkt) auto
    show ?thesis
    proof (cases "process_message E self header delta use_nodes (print_line (created_line dest) w1)")
      case None
      then show ?thesis using assms Pair Inr p by (simp add: send_message_def)
    next
      case (Some res)
      obtain r2 w2 where "res = (r2, w2)" by (cases res) auto
      then show ?thesis using assms Pair Inr p Some
        by (cases r2) (auto simp: send_message_def)
    qed
  qed
qed

text \<open>
  C3, as the code has it. \<open>send_message\<close> returns no failure value. A failure of route
  selection or packet construction (the steps of \<open>build_packet\<close>), and a failure at any
  hop of the relay loop (peel, decode, open, or an unknown next-hop id), is caught and
  raised again to the caller as a plain \<^verbatim>\<open>Exception\<close> whose text is
  \<^verbatim>\<open>Error sending message: \<close> followed by the text of the failure. Whatever
  \<open>send_message\<close> raises has that form.
\<close>

theorem send_message_raises_every_failure:
  "(build_packet E self message dest w = (Inl e, w1)
      \<longrightarrow> send_message E self message dest w =
            Some (Inl (PyExc ''Exception'' (''Error sending message: '' @ exc_str e)), w1))
   \<and> (build_packet E self message dest w = (Inr (n # ns, header, delta), w1)
        \<and> map_of (pkiPriv (heap w ! self)) n = Some entry
        \<and> relay_hops E self (print_line (created_line dest) w1) k (pki_x entry, header, delta) = Some st
        \<and> process_hop E self (print_line (created_line dest) w1) st = Raise e
      \<longrightarrow> send_message E self message dest w =
            Some (Inl (PyExc ''Exception''
                    (''Error sending message: Error processing message: '' @ exc_str e)),
                  print_line (created_line dest) w1))
   \<and> (send_message E self message dest w = Some (Inl e, w')
      \<longrightarrow> (\<exists>cause. e = PyExc ''Exception'' (''Error sending message: '' @ cause)))"
proof -
  have a: "send_message E self message dest w =
            Some (Inl (PyExc ''Exception'' (''Error sending message: '' @ exc_str e)), w1)"
    if "build_packet E self message dest w = (Inl e, w1)"
    using that by (simp add: send_message_def)
  have b: "send_message E self message dest w =
            Some (Inl (PyExc ''Exception''
                    (''Error sending message: Error processing message: '' @ exc_str e)),
                  print_line (created_line dest) w1)"
    if pkt: "build_packet E self message dest w = (Inr (n # ns, header, delta), w1)"
      and first: "map_of (pkiPriv (heap w ! self)) n = Some entry"
      and relayed: "relay_hops E self (print_line (created_line dest) w1) k (pki_x entry, header, delta) = Some st"
      and raise: "process_hop E self (print_line (created_line dest) w1) st = Raise e"
  proof -
    let ?w = "print_line (created_line dest) w1"
    have "heap ?w = heap w"
      using build_packet_ok(2) [OF pkt] by (simp add: print_line_def)
    then have "map_of (pkiPriv (heap ?w ! self)) n = Some entry"
      using first by simp
    then have "process_message E self header delta (n # ns) ?w =
           Some (Inl (PyExc ''Exception'' (''Error processing message: '' @ exc_str e)), ?w)"
      using relayed raise by (rule process_message_raise_at_hop)
    then show ?thesis
      using pkt by (simp add: send_message_def)
  qed
  show ?thesis
    using a b send_message_raise_shape by blast
qed

theorem send_message_raises_every_failure_witness:
  "build_packet toy 0 JNull ''destination_node'' world10
     = (Inl (AttributeError JNull ''encode''), world10\<lparr>rng := 20\<rparr>)
   \<and> send_message toy 0 JNull ''destination_node'' world10
     = Some (Inl (PyExc ''Exception''
               (''Error sending message: '' @ exc_str (AttributeError JNull ''encode''))),
             world10\<lparr>rng := 20\<rparr>)
   \<and> (\<exists>cause. PyExc ''Exception''
               (''Error sending message: '' @ exc_str (AttributeError JNull ''encode''))
             = PyExc ''Exception'' (''Error sending message: '' @ cause))
   \<and> process_hop (relay_forever 99) 0
         (print_line (created_line ''destination_node'') (world10\<lparr>rng := 21\<rparr>))
         (Some 22,
          [(122, ''Rxxxx''), (113, ''Rx''), (104, ''Rxxxxxxxxx''), (128, ''Rxxxxxx''), (119, ''D'')],
          ''destination_node|hello'')
       = Raise (KeyError 99)
   \<and> send_message (relay_forever 99) 0 (JString ''hello'') ''destination_node'' world10
     = Some (Inl (PyExc ''Exception''
               (''Error sending message: Error processing message: '' @ exc_str (KeyError 99))),
             print_line (created_line ''destination_node'') (world10\<lparr>rng := 21\<rparr>))"
proof -
  let ?e = "pki_entry 7 (Some 22) 122 :: (nat, nat) pki_entry"
  let ?h = "[(122, ''Rxxxx''), (113, ''Rx''), (104, ''Rxxxxxxxxx''), (128, ''Rxxxxxx''), (119, ''D'')]
              :: toy_header"
  let ?w = "print_line (created_line ''destination_node'') (world10\<lparr>rng := 21\<rparr>)"
  have pkt: "build_packet toy 0 JNull ''destination_node'' world10
     = (Inl (AttributeError JNull ''encode''), world10\<lparr>rng := 20\<rparr>)"
    by code_simp
  have s: "send_message toy 0 JNull ''destination_node'' world10
     = Some (Inl (PyExc ''Exception''
               (''Error sending message: '' @ exc_str (AttributeError JNull ''encode''))),
             world10\<lparr>rng := 20\<rparr>)"
    using send_message_raises_every_failure
      [where E = toy and self = 0 and message = JNull and dest = "''destination_node''"
         and w = world10 and e = "AttributeError JNull ''encode''"
         and ?w1.0 = "world10\<lparr>rng := 20\<rparr>", THEN conjunct1] pkt
    by (rule mp)
  have c: "\<exists>cause. PyExc ''Exception''
               (''Error sending message: '' @ exc_str (AttributeError JNull ''encode''))
             = PyExc ''Exception'' (''Error sending message: '' @ cause)"
    using send_message_raises_every_failure
      [where E = toy and self = 0 and message = JNull and dest = "''destination_node''"
         and w = world10
         and e = "PyExc ''Exception''
               (''Error sending message: '' @ exc_str (AttributeError JNull ''encode''))"
         and w' = "world10\<lparr>rng := 20\<rparr>", THEN conjunct2, THEN conjunct2] s
    by (rule mp)
  have pkt2: "build_packet (relay_forever 99) 0 (JString ''hello'') ''destination_node'' world10
     = (Inr (7 # [4, 1, 9, 6], ?h, ''destination_node|hello''), world10\<lparr>rng := 21\<rparr>)"
    by code_simp
  have first: "map_of (pkiPriv (heap world10 ! 0)) 7 = Some ?e"
    by code_simp
  have relayed: "relay_hops (relay_forever 99) 0 ?w 0 (pki_x ?e, ?h, ''destination_node|hello'')
                   = Some (Some 22, ?h, ''destination_node|hello'')"
    by simp
  have raise: "process_hop (relay_forever 99) 0 ?w (Some 22, ?h, ''destination_node|hello'')
                 = Raise (KeyError 99)"
    by code_simp
  have s2: "send_message (relay_forever 99) 0 (JString ''hello'') ''destination_node'' world10
     = Some (Inl (PyExc ''Exception''
               (''Error sending message: Error processing message: '' @ exc_str (KeyError 99))),
             ?w)"
    using send_message_raises_every_failure
      [where E = "relay_forever 99" and self = 0 and message = "JString ''hello''"
         and dest = "''destination_node''" and w = world10 and n = 7 and ns = "[4, 1, 9, 6]"
         and header = ?h and delta = "''destination_node|hello''"
         and ?w1.0 = "world10\<lparr>rng := 21\<rparr>" and entry = ?e and k = 0
         and st = "(Some 22, ?h, ''destination_node|hello'')" and e = "KeyError 99",
       THEN conjunct2, THEN conjunct1]
      pkt2 first relayed raise
    by blast
  show ?thesis
    using pkt s c raise s2 by (intro conjI)
qed

text \<open>
  C3 as stated fails. With a peel that names the unknown node 99, \<open>send_message\<close> raises
  to its caller (the result is \<open>Inl\<close>); it returns no failure value.
\<close>

theorem send_message_raises_to_caller:
  "send_message (relay_forever 99) 0 (JString ''hello'') ''destination_node'' world10 =
     Some (Inl (PyExc ''Exception'' ''Error sending message: Error processing message: 99''),
           print_line (created_line ''destination_node'') (world10\<lparr>rng := 21\<rparr>))"
  by code_simp

section \<open>A registry shorter than the path\<close>

text \<open>
  C7, as the code has it. With fewer than 5 ids in the registry, route selection does not
  fail: the route holds every id of the registry once.
\<close>

theorem short_registry_route_is_whole_registry:
  assumes "distinct (map fst (pkiPub (heap w ! self)))"
    and "length (pkiPub (heap w ! self)) < 5"
  shows "length (fst (select_route E self w)) = length (pkiPub (heap w ! self))
    \<and> distinct (fst (select_route E self w))
    \<and> set (fst (select_route E self w)) = fst ` set (pkiPub (heap w ! self))"
proof -
  have "length (fst (select_route E self w)) = length (pkiPub (heap w ! self))"
    using assms(2) by (simp add: select_route_def rand_subset_length)
  moreover have "distinct (fst (select_route E self w))"
    unfolding select_route_def using assms(1) by (rule rand_subset_distinct)
  moreover have "set (fst (select_route E self w)) = fst ` set (pkiPub (heap w ! self))"
    using assms(2) rand_subset_all [of "map fst (pkiPub (heap w ! self))" 5 E "rng w"]
    by (simp add: select_route_def)
  ultimately show ?thesis
    by simp
qed

theorem short_registry_route_is_whole_registry_witness:
  "distinct (map fst (pkiPub (heap world3 ! 0)))
    \<and> length (pkiPub (heap world3 ! 0)) < 5
    \<and> length (fst (select_route toy 0 world3)) = length (pkiPub (heap world3 ! 0))
    \<and> distinct (fst (select_route toy 0 world3))
    \<and> set (fst (select_route toy 0 world3)) = fst ` set (pkiPub (heap world3 ! 0))"
proof -
  have d: "distinct (map fst (pkiPub (heap world3 ! 0)))"
    by code_simp
  have l: "length (pkiPub (heap world3 ! 0)) < 5"
    by code_simp
  show ?thesis
    using short_registry_route_is_whole_registry [OF d l, of toy] d l by simp
qed

text \<open>
  C7 as stated fails. \<^verbatim>\<open>rand_subset\<close> asked for 6 of 3 ids returns the 3 ids. On a
  registry of 3 nodes the route is the 3 ids and \<open>send_message\<close> delivers the message:
  nothing raises an InsufficientNodesError.
\<close>

theorem short_registry_route_selected_and_sent:
  "fst (rand_subset toy [0, 1, 2 :: int] 6 0) = [0, 2, 1]
   \<and> length (pkiPub (heap world3 ! 0)) = 3
   \<and> fst (select_route toy 0 world3) = [0, 2, 1]
   \<and> map_option fst (send_message toy 0 (JString ''hello'') ''destination_node'' world3)
       = Some (Inr ''hello'')"
  by code_simp

section \<open>Node count and path length\<close>

text \<open>
  C8, as the code has it. The node count is the parameter of the constructor, with the
  default 10: \<^verbatim>\<open>Mixnet()\<close> is \<^verbatim>\<open>Mixnet(10)\<close>, and \<^verbatim>\<open>Mixnet(n)\<close> registers the ids of
  \<^verbatim>\<open>range(n)\<close>. The path length is the literal 5 in \<open>send_message\<close>: the route has 5
  ids, or all the ids of a smaller registry, whatever the caller passes.
\<close>

theorem node_count_is_a_parameter_path_length_is_five:
  "Mixnet E None w = Mixnet E (Some 10) w
   \<and> (Mixnet E (Some n) w = (Inr self, w')
        \<longrightarrow> map fst (pkiPub (heap w' ! self)) = py_range n
          \<and> map fst (pkiPriv (heap w' ! self)) = py_range n)
   \<and> length (fst (select_route E self2 w2)) = min 5 (length (pkiPub (heap w2 ! self2)))"
proof -
  have a: "Mixnet E None w = Mixnet E (Some 10) w"
    by (simp add: Mixnet_def)
  have b: "map fst (pkiPub (heap w' ! self)) = py_range n
          \<and> map fst (pkiPriv (heap w' ! self)) = py_range n"
    if "Mixnet E (Some n) w = (Inr self, w')"
    using Mixnet_keys [OF that] by simp
  have c: "length (fst (select_route E self2 w2)) = min 5 (length (pkiPub (heap w2 ! self2)))"
    by (simp add: select_route_def rand_subset_length)
  show ?thesis
    using a b c by blast
qed

theorem node_count_is_a_parameter_path_length_is_five_witness:
  "Mixnet toy (Some 3) world0 = (Inr 0, world3)
   \<and> map fst (pkiPub (heap world3 ! 0)) = [0, 1, 2]
   \<and> map fst (pkiPriv (heap world3 ! 0)) = [0, 1, 2]"
proof -
  have m: "Mixnet toy (Some 3) world0 = (Inr 0, world3)"
    by code_simp
  have r: "py_range 3 = [0, 1, 2]"
    by code_simp
  show ?thesis
    using node_count_is_a_parameter_path_length_is_five [of toy world0 3 0 world3] m r
    by simp
qed

text \<open>
  C8 as stated fails for the path length: on a registry of at least 5 nodes no
  environment, world or object gives a route of another length than 5.
\<close>

theorem path_length_is_not_configurable:
  "\<not> (\<exists>(E :: (nat, nat, toy_header, nat) env) (w :: (nat, nat, nat) world) self.
         5 \<le> length (pkiPub (heap w ! self)) \<and> length (fst (select_route E self w)) \<noteq> 5)"
  by (simp add: select_route_def rand_subset_length)

section \<open>The public registry\<close>

lemma build_packet_public_only:
  assumes "pkiPub (heap w2 ! self2) = pkiPub (heap w ! self)" and "rng w2 = rng w"
  shows "fst (build_packet E self2 message dest w2) = fst (build_packet E self message dest w)"
    and "rng (snd (build_packet E self2 message dest w2)) = rng (snd (build_packet E self message dest w))"
  using assms
  by (auto simp: build_packet_def select_route_def Let_def split: prod.splits sum.splits)

text \<open>
  C5. After \<^verbatim>\<open>Mixnet(...)\<close> returned, every entry of the public registry has no private
  key. Route selection and packet construction read the public registry and the random
  source only: in any world with the same public registry and random state (whatever
  its private registry holds) they give the same route and the same packet. The private
  registry is read by the relay loop alone.
\<close>

theorem public_registry_holds_no_private_key:
  assumes "Mixnet E num_nodes w0 = (Inr self, w)"
  shows "(\<forall>n e. map_of (pkiPub (heap w ! self)) n = Some e \<longrightarrow> pki_x e = None)
    \<and> (\<forall>w2 self2. pkiPub (heap w2 ! self2) = pkiPub (heap w ! self) \<and> rng w2 = rng w
          \<longrightarrow> fst (select_route E self2 w2) = fst (select_route E self w)
            \<and> fst (build_packet E self2 message dest w2) = fst (build_packet E self message dest w)
            \<and> rng (snd (build_packet E self2 message dest w2))
                = rng (snd (build_packet E self message dest w)))"
proof -
  have "\<forall>n e. map_of (pkiPub (heap w ! self)) n = Some e \<longrightarrow> pki_x e = None"
    using assms by (rule Mixnet_pub_none)
  moreover have "fst (select_route E self2 w2) = fst (select_route E self w)"
    if "pkiPub (heap w2 ! self2) = pkiPub (heap w ! self)" "rng w2 = rng w" for w2 self2
    using that by (simp add: select_route_def)
  ultimately show ?thesis
    using build_packet_public_only by blast
qed

theorem public_registry_holds_no_private_key_witness:
  "Mixnet toy None world0 = (Inr 0, world10)
   \<and> map_of (pkiPub (heap world10 ! 0)) 3 = Some (pki_entry 3 None 110)
   \<and> pki_x (pki_entry 3 None 110 :: (nat, nat) pki_entry) = None
   \<and> fst (build_packet toy 0 (JString ''hello'') ''destination_node''
            (world10\<lparr>heap := [\<lparr>pkiPriv = [], pkiPub = pkiPub (heap world10 ! 0)\<rparr>]\<rparr>))
       = fst (build_packet toy 0 (JString ''hello'') ''destination_node'' world10)"
proof -
  let ?w2 = "world10\<lparr>heap := [\<lparr>pkiPriv = [], pkiPub = pkiPub (heap world10 ! 0)\<rparr>]\<rparr>"
  have init: "Mixnet toy None world0 = (Inr 0, world10)"
    by code_simp
  have e: "map_of (pkiPub (heap world10 ! 0)) 3 = Some (pki_entry 3 None 110)"
    by code_simp
  have same: "pkiPub (heap ?w2 ! 0) = pkiPub (heap world10 ! 0) \<and> rng ?w2 = rng world10"
    by simp
  note t = public_registry_holds_no_private_key
             [OF init, of "JString ''hello''" "''destination_node''"]
  from t e have "pki_x (pki_entry 3 None 110 :: (nat, nat) pki_entry) = None"
    by blast
  moreover from t same have
    "fst (build_packet toy 0 (JString ''hello'') ''destination_node'' ?w2)
       = fst (build_packet toy 0 (JString ''hello'') ''destination_node'' world10)"
    by blast
  ultimately show ?thesis
    using init e by blast
qed

section \<open>A request and the objects of earlier requests\<close>

lemma init_loop_relocate:
  assumes "initialize_nodes_loop E self is w = (r, w')"
    and "self < length (heap w)" and "self2 < length h2" and "h2 ! self2 = heap w ! self"
  shows "initialize_nodes_loop E self2 is (w\<lparr>heap := h2\<rparr>)
           = (r, w'\<lparr>heap := h2[self2 := heap w' ! self]\<rparr>)"
  using assms
proof (induction "is" arbitrary: w h2)
  case Nil
  have "h2[self2 := heap w ! self] = h2"
    using Nil.prems(4) by (metis list_update_id)
  then show ?case using Nil.prems(1) by auto
next
  case (Cons i "is")
  have same: "h2[self2 := heap w ! self] = h2"
    using Cons.prems(4) by (metis list_update_id)
  show ?case
  proof (cases "gensecret E (rng w)")
    case (Pair g r1)
    show ?thesis
    proof (cases g)
      case (Inl e)
      then show ?thesis using Cons.prems(1) Pair same by (auto simp: init_loop_Cons)
    next
      case (Inr sk)
      show ?thesis
      proof (cases "expon_g E sk")
        case (Inl e)
        then show ?thesis using Cons.prems(1) Pair Inr same by (auto simp: init_loop_Cons)
      next
        case (Inr pk)
        let ?obj = "(heap w ! self)
                      \<lparr>pkiPriv := AList.update i (pki_entry i (Some sk) pk) (pkiPriv (heap w ! self)),
                       pkiPub := AList.update i (pki_entry i None pk) (pkiPub (heap w ! self))\<rparr>"
        let ?w = "w\<lparr>rng := r1, heap := (heap w)[self := ?obj]\<rparr>"
        have run: "initialize_nodes_loop E self is ?w = (r, w')"
          using Cons.prems(1) Pair \<open>g = Inr sk\<close> Inr by (simp add: init_loop_Cons)
        have l1: "self < length (heap ?w)" using Cons.prems(2) by simp
        have l2: "self2 < length (h2[self2 := ?obj])" using Cons.prems(3) by simp
        have eq: "h2[self2 := ?obj] ! self2 = heap ?w ! self"
          using Cons.prems(2,3) by simp
        have "initialize_nodes_loop E self2 is (?w\<lparr>heap := h2[self2 := ?obj]\<rparr>)
                = (r, w'\<lparr>heap := h2[self2 := ?obj, self2 := heap w' ! self]\<rparr>)"
          using Cons.IH [OF run l1 l2 eq] .
        then show ?thesis
          using Pair \<open>g = Inr sk\<close> Inr Cons.prems(4) by (simp add: init_loop_Cons)
      qed
    qed
  qed
qed

lemma Mixnet_relocate:
  assumes "Mixnet E num w = (r, w')"
  shows "Mixnet E num (w\<lparr>heap := h2\<rparr>)
           = (map_sum id (\<lambda>self. length h2) r, w'\<lparr>heap := h2 @ drop (length (heap w)) (heap w')\<rparr>)"
proof (cases "SphinxParams E")
  case (Inl e)
  then show ?thesis using assms by (auto simp: Mixnet_unfold)
next
  case (Inr u)
  let ?n = "case num of None \<Rightarrow> 10 | Some n \<Rightarrow> n"
  let ?new = "\<lparr>pkiPriv = [], pkiPub = []\<rparr> :: ('a, 'b) mixnet"
  let ?w0 = "w\<lparr>heap := heap w @ [?new]\<rparr>"
  obtain rl wl where l: "initialize_nodes_loop E (length (heap w)) (py_range ?n) ?w0 = (rl, wl)"
    by (cases "initialize_nodes_loop E (length (heap w)) (py_range ?n) ?w0")
  from init_loop_frame [OF l] obtain obj where
    hl: "heap wl = heap w @ [obj]" by auto
  have "initialize_nodes_loop E (length h2) (py_range ?n) (?w0\<lparr>heap := h2 @ [?new]\<rparr>)
          = (rl, wl\<lparr>heap := (h2 @ [?new])[length h2 := heap wl ! length (heap w)]\<rparr>)"
    by (rule init_loop_relocate [OF l]) simp_all
  then have l2: "initialize_nodes_loop E (length h2) (py_range ?n) (w\<lparr>heap := h2 @ [?new]\<rparr>)
          = (rl, wl\<lparr>heap := h2 @ [obj]\<rparr>)"
    using hl by simp
  show ?thesis
  proof (cases rl)
    case (Inl e)
    then show ?thesis using assms Inr l l2 hl by (auto simp: Mixnet_unfold)
  next
    case (Inr v)
    then show ?thesis using assms \<open>SphinxParams E = Inr u\<close> l l2 hl by (auto simp: Mixnet_unfold)
  qed
qed

lemma build_packet_relocate:
  assumes "h2 ! self2 = heap w ! self"
  shows "build_packet E self2 message dest (w\<lparr>heap := h2\<rparr>)
           = apsnd (\<lambda>w'. w'\<lparr>heap := h2\<rparr>) (build_packet E self message dest w)"
  using assms
  by (auto simp: build_packet_def select_route_def Let_def split: prod.splits sum.splits)


lemma process_hop_relocate:
  assumes "h2 ! self2 = heap w ! self"
  shows "process_hop E self2 (w\<lparr>heap := h2\<rparr>) st =
           (case process_hop E self w st of
              Return (text, w') \<Rightarrow> Return (text, w'\<lparr>heap := h2\<rparr>)
            | Raise e \<Rightarrow> Raise e
            | Continue st' \<Rightarrow> Continue st')"
  using assms
  by (auto simp: process_hop_def print_line_def split: prod.splits sum.splits routing.splits)


lemma process_hop_heap:
  "process_hop E self w st = Return (text, w') \<Longrightarrow> heap w' = heap w"
  by (auto simp: process_hop_def print_line_def split: prod.splits sum.splits routing.splits)


lemma run_hops_relocate:
  assumes "h2 ! self2 = heap w ! self"
  shows "run_hops E self2 (w\<lparr>heap := h2\<rparr>) n st
           = map_option (apsnd (\<lambda>w'. w'\<lparr>heap := h2\<rparr>)) (run_hops E self w n st)"
proof (induction n arbitrary: st)
  case 0
  then show ?case by simp
next
  case (Suc n)
  show ?case
  proof (cases "process_hop E self w st")
    case (Return p)
    then show ?thesis
      using process_hop_relocate [OF assms, of E st] by (cases p) simp
  next
    case (Raise e)
    then show ?thesis
      using process_hop_relocate [OF assms, of E st] by simp
  next
    case (Continue st')
    then show ?thesis
      using process_hop_relocate [OF assms, of E st] Suc.IH by simp
  qed
qed


lemma run_hops_heap:
  "run_hops E self w n st = Some (r, w') \<Longrightarrow> heap w' = heap w"
proof (induction n arbitrary: st)
  case 0
  then show ?case by simp
next
  case (Suc n)
  show ?case
  proof (cases "process_hop E self w st")
    case (Return p)
    obtain t w1 where p: "p = (t, w1)" by (cases p) auto
    have "heap w1 = heap w"
      using Return p process_hop_heap [of E self w st t w1] by simp
    moreover have "w' = w1"
      using Suc.prems Return p by simp
    ultimately show ?thesis by simp
  next
    case (Raise e)
    then show ?thesis using Suc.prems by simp
  next
    case (Continue st')
    then have "run_hops E self w n st' = Some (r, w')" using Suc.prems by simp
    then show ?thesis by (rule Suc.IH)
  qed
qed

lemma process_loop_relocate:
  assumes "h2 ! self2 = heap w ! self"
  shows "process_loop E self2 (w\<lparr>heap := h2\<rparr>) st
           = map_option (apsnd (\<lambda>w'. w'\<lparr>heap := h2\<rparr>)) (process_loop E self w st)"
proof (cases "process_loop E self w st")
  case None
  then have "\<forall>n. run_hops E self w n st = None"
    by (simp add: loop_None_iff)
  then have "\<forall>n. run_hops E self2 (w\<lparr>heap := h2\<rparr>) n st = None"
    by (simp add: run_hops_relocate [OF assms])
  then have "process_loop E self2 (w\<lparr>heap := h2\<rparr>) st = None"
    by (simp add: loop_None_iff)
  then show ?thesis using None by simp
next
  case (Some res)
  then obtain n where "run_hops E self w n st = Some res"
    using loop_run_hops by blast
  then have "run_hops E self2 (w\<lparr>heap := h2\<rparr>) n st
               = Some (apsnd (\<lambda>w'. w'\<lparr>heap := h2\<rparr>) res)"
    by (simp add: run_hops_relocate [OF assms])
  then have "process_loop E self2 (w\<lparr>heap := h2\<rparr>) st
               = Some (apsnd (\<lambda>w'. w'\<lparr>heap := h2\<rparr>) res)"
    by (rule run_hops_loop)
  then show ?thesis using Some by simp
qed


lemma process_loop_heap:
  assumes "process_loop E self w st = Some (r, w')"
  shows "heap w' = heap w"
proof -
  from loop_run_hops [OF assms] obtain n where "run_hops E self w n st = Some (r, w')" ..
  then show ?thesis by (rule run_hops_heap)
qed


lemma process_message_relocate:
  assumes "h2 ! self2 = heap w ! self"
  shows "process_message E self2 header delta use_nodes (w\<lparr>heap := h2\<rparr>)
           = map_option (apsnd (\<lambda>w'. w'\<lparr>heap := h2\<rparr>))
               (process_message E self header delta use_nodes w)"
proof (cases use_nodes)
  case Nil
  then show ?thesis by (simp add: process_message_def)
next
  case (Cons n ns)
  show ?thesis
  proof (cases "dict_item (pkiPriv (heap w ! self)) n")
    case (Inl e)
    then show ?thesis using Cons assms by (simp add: process_message_def)
  next
    case (Inr entry)
    show ?thesis
    proof (cases "process_loop E self w (pki_x entry, header, delta)")
      case None
      then show ?thesis
        using Cons Inr assms process_loop_relocate [OF assms, of E "(pki_x entry, header, delta)"]
        by (simp add: process_message_def)
    next
      case (Some res)
      obtain r w' where "res = (r, w')" by (cases res) auto
      then show ?thesis
        using Cons Inr Some assms process_loop_relocate [OF assms, of E "(pki_x entry, header, delta)"]
        by (cases r) (simp_all add: process_message_def)
    qed
  qed
qed


lemma process_message_heap:
  assumes "process_message E self header delta use_nodes w = Some (r, w')"
  shows "heap w' = heap w"
proof (cases use_nodes)
  case Nil
  then show ?thesis using assms by (auto simp: process_message_def)
next
  case (Cons n ns)
  show ?thesis
  proof (cases "dict_item (pkiPriv (heap w ! self)) n")
    case (Inl e)
    then show ?thesis using Cons assms by (auto simp: process_message_def)
  next
    case (Inr entry)
    show ?thesis
    proof (cases "process_loop E self w (pki_x entry, header, delta)")
      case None
      then show ?thesis using Cons Inr assms by (simp add: process_message_def)
    next
      case (Some res)
      obtain r2 w2 where res: "res = (r2, w2)" by (cases res) auto
      have "process_loop E self w (pki_x entry, header, delta) = Some (r2, w2)"
        using Some res by simp
      then have "heap w2 = heap w" by (rule process_loop_heap)
      then show ?thesis using Cons Inr assms Some res
        by (cases r2) (auto simp: process_message_def)
    qed
  qed
qed


lemma send_message_relocate:
  assumes "h2 ! self2 = heap w ! self"
  shows "send_message E self2 message dest (w\<lparr>heap := h2\<rparr>)
           = map_option (apsnd (\<lambda>w'. w'\<lparr>heap := h2\<rparr>)) (send_message E self message dest w)"
proof (cases "build_packet E self message dest w")
  case (Pair r w1)
  have bp: "build_packet E self2 message dest (w\<lparr>heap := h2\<rparr>) = (r, w1\<lparr>heap := h2\<rparr>)"
    using build_packet_relocate [OF assms, of E message dest] Pair by simp
  have h1: "heap w1 = heap w"
    using build_packet_frame(1) [OF Pair] .
  show ?thesis
  proof (cases r)
    case (Inl e)
    then show ?thesis using Pair bp by (simp add: send_message_def)
  next
    case (Inr pkt)
    obtain use_nodes header delta where p: "pkt = (use_nodes, header, delta)"
      by (cases pkt) auto
    let ?w = "print_line (created_line dest) w1"
    have a: "h2 ! self2 = heap ?w ! self"
      using assms h1 by (simp add: print_line_def)
    have w: "print_line (created_line dest) (w1\<lparr>heap := h2\<rparr>) = ?w\<lparr>heap := h2\<rparr>"
      by (simp add: print_line_def)
    have pm: "process_message E self2 header delta use_nodes (?w\<lparr>heap := h2\<rparr>)
           = map_option (apsnd (\<lambda>w'. w'\<lparr>heap := h2\<rparr>))
               (process_message E self header delta use_nodes ?w)"
      using a by (rule process_message_relocate)
    show ?thesis
    proof (cases "process_message E self header delta use_nodes ?w")
      case None
      then show ?thesis using Pair bp Inr p pm w by (simp add: send_message_def)
    next
      case (Some res)
      obtain r2 w2 where "res = (r2, w2)" by (cases res) auto
      then show ?thesis using Pair bp Inr p pm w Some
        by (cases r2) (simp_all add: send_message_def)
    qed
  qed
qed


lemma send_message_heap:
  assumes "send_message E self message dest w = Some (r, w')"
  shows "heap w' = heap w"
proof (cases "build_packet E self message dest w")
  case (Pair r1 w1)
  have h1: "heap w1 = heap w"
    using build_packet_frame(1) [OF Pair] .
  show ?thesis
  proof (cases r1)
    case (Inl e)
    then show ?thesis using Pair assms h1 by (auto simp: send_message_def)
  next
    case (Inr pkt)
    obtain use_nodes header delta where p: "pkt = (use_nodes, header, delta)"
      by (cases pkt) auto
    let ?w = "print_line (created_line dest) w1"
    show ?thesis
    proof (cases "process_message E self header delta use_nodes ?w")
      case None
      then show ?thesis using Pair Inr p assms by (simp add: send_message_def)
    next
      case (Some res)
      obtain r2 w2 where res: "res = (r2, w2)" by (cases res) auto
      have "process_message E self header delta use_nodes ?w = Some (r2, w2)"
        using Some res by simp
      then have "heap w2 = heap ?w" by (rule process_message_heap)
      then have "heap w2 = heap w" using h1 by (simp add: print_line_def)
      then show ?thesis using Pair Inr p assms Some res
        by (cases r2) (auto simp: send_message_def)
    qed
  qed
qed

lemma JSONResponse_Exc: "JSONResponse (Exc e) status = Inl (PyExc ''TypeError''
   (''Object of type '' @ exc_class e @ '' is not JSON serializable''))"
  by (simp add: JSONResponse_def)

lemma mix_no_message:
  assumes "json_body request = Inl e \<or> (\<exists>data. json_body request = Inr data \<and> json_get data ''message'' = Inl e)"
  shows "mix_incoming_messages E request w = Some (JSONResponse (Exc e) 200, w)"
  using assms by (auto simp: mix_incoming_messages_def)

lemma mix_no_mixnet:
  assumes "json_body request = Inr data" and "json_get data ''message'' = Inr message"
    and "Mixnet E None w = (Inl e, w1)"
  shows "mix_incoming_messages E request w = Some (JSONResponse (Exc e) 200, w1)"
  using assms by (simp add: mix_incoming_messages_def)

lemma mix_sent:
  assumes "json_body request = Inr data" and "json_get data ''message'' = Inr message"
    and "Mixnet E None w = (Inr self, w1)"
  shows "mix_incoming_messages E request w =
           (case send_message E self message ''destination_node'' w1 of
              None \<Rightarrow> None
            | Some (Inl e, w2) \<Rightarrow> Some (JSONResponse (Exc e) 200, w2)
            | Some (Inr received_message, w2) \<Rightarrow>
                Some (Inr \<lparr>status_code = 200,
                           body_data = (if received_message \<noteq> [] then received_message
                                        else ''Failed to mix message!'')\<rparr>, w2))"
  using assms
  by (auto simp: mix_incoming_messages_def JSONResponse_def split: option.splits sum.splits prod.splits)

lemma mix_relocate:
  "mix_incoming_messages E request (w\<lparr>heap := h2\<rparr>)
     = map_option (apsnd (\<lambda>w'. w'\<lparr>heap := h2 @ drop (length (heap w)) (heap w')\<rparr>))
         (mix_incoming_messages E request w)"
proof (cases "json_body request")
  case (Inl e)
  then show ?thesis by (simp add: mix_no_message)
next
  case (Inr data)
  show ?thesis
  proof (cases "json_get data ''message''")
    case (Inl e)
    then show ?thesis using Inr by (simp add: mix_no_message)
  next
    case msg: (Inr message)
    obtain r w1 where m: "Mixnet E None w = (r, w1)"
      by (cases "Mixnet E None w")
    from Mixnet_frame [OF m] obtain obj where h1: "heap w1 = heap w @ [obj]"
      by blast
    have m2: "Mixnet E None (w\<lparr>heap := h2\<rparr>)
                = (map_sum id (\<lambda>self. length h2) r, w1\<lparr>heap := h2 @ [obj]\<rparr>)"
      using Mixnet_relocate [OF m, of h2] h1 by simp
    show ?thesis
    proof (cases r)
      case (Inl e)
      then show ?thesis
        using Inr msg m m2 h1 by (simp add: mix_no_mixnet)
    next
      case self: (Inr self)
      have s: "self = length (heap w)"
        using Mixnet_success(1) m self by blast
      have "(h2 @ [obj]) ! length h2 = heap w1 ! self"
        using h1 s by simp
      then have sm: "send_message E (length h2) message ''destination_node'' (w1\<lparr>heap := h2 @ [obj]\<rparr>)
           = map_option (apsnd (\<lambda>w'. w'\<lparr>heap := h2 @ [obj]\<rparr>))
               (send_message E self message ''destination_node'' w1)"
        by (rule send_message_relocate)
      have left: "mix_incoming_messages E request (w\<lparr>heap := h2\<rparr>) =
           (case send_message E (length h2) message ''destination_node'' (w1\<lparr>heap := h2 @ [obj]\<rparr>) of
              None \<Rightarrow> None
            | Some (Inl e, w2) \<Rightarrow> Some (JSONResponse (Exc e) 200, w2)
            | Some (Inr received_message, w2) \<Rightarrow>
                Some (Inr \<lparr>status_code = 200,
                           body_data = (if received_message \<noteq> [] then received_message
                                        else ''Failed to mix message!'')\<rparr>, w2))"
        using Inr msg m2 self by (intro mix_sent) simp_all
      have right: "mix_incoming_messages E request w =
           (case send_message E self message ''destination_node'' w1 of
              None \<Rightarrow> None
            | Some (Inl e, w2) \<Rightarrow> Some (JSONResponse (Exc e) 200, w2)
            | Some (Inr received_message, w2) \<Rightarrow>
                Some (Inr \<lparr>status_code = 200,
                           body_data = (if received_message \<noteq> [] then received_message
                                        else ''Failed to mix message!'')\<rparr>, w2))"
        using Inr msg m self by (intro mix_sent) simp_all
      show ?thesis
      proof (cases "send_message E self message ''destination_node'' w1")
        case None
        then show ?thesis using left right sm by simp
      next
        case (Some res)
        obtain r2 w2 where res: "res = (r2, w2)" by (cases res) auto
        have "heap w2 = heap w1"
          using Some res send_message_heap [of E self message "''destination_node''" w1 r2 w2]
          by simp
        then have "drop (length (heap w)) (heap w2) = [obj]"
          using h1 by simp
        then show ?thesis
          using left right sm Some res by (cases r2) simp_all
      qed
    qed
  qed
qed

lemma mix_outcome:
  assumes run: "mix_incoming_messages E request w = Some (res, w')"
  shows "heap w' = heap w \<or> (\<exists>obj. heap w' = heap w @ [obj])"
    and "json_body request = Inr (JObject kvs) \<Longrightarrow> \<exists>obj. heap w' = heap w @ [obj]"
    and "res = Inr resp \<Longrightarrow> \<exists>self w1. Mixnet E None w = (Inr self, w1) \<and> heap w' = heap w1"
proof -
  have "(heap w' = heap w \<or> (\<exists>obj. heap w' = heap w @ [obj]))
      \<and> (json_body request = Inr (JObject kvs) \<longrightarrow> (\<exists>obj. heap w' = heap w @ [obj]))
      \<and> (res = Inr resp \<longrightarrow> (\<exists>self w1. Mixnet E None w = (Inr self, w1) \<and> heap w' = heap w1))"
  proof (cases "json_body request")
    case (Inl e)
    then show ?thesis using run by (auto simp: mix_no_message JSONResponse_Exc)
  next
    case (Inr data)
    show ?thesis
    proof (cases "json_get data ''message''")
      case (Inl e)
      then have "mix_incoming_messages E request w = Some (JSONResponse (Exc e) 200, w)"
        using Inr by (simp add: mix_no_message)
      moreover have "data \<noteq> JObject kvs"
        using Inl by (auto simp: json_get_def)
      ultimately show ?thesis using run Inr by (auto simp: JSONResponse_Exc)
    next
      case msg: (Inr message)
      obtain r w1 where m: "Mixnet E None w = (r, w1)"
        by (cases "Mixnet E None w")
      from Mixnet_frame [OF m] obtain obj where h1: "heap w1 = heap w @ [obj]"
        by blast
      show ?thesis
      proof (cases r)
        case (Inl e)
        then show ?thesis
          using run Inr msg m h1 by (auto simp: mix_no_mixnet JSONResponse_Exc)
      next
        case self: (Inr self)
        have right: "mix_incoming_messages E request w =
           (case send_message E self message ''destination_node'' w1 of
              None \<Rightarrow> None
            | Some (Inl e, w2) \<Rightarrow> Some (JSONResponse (Exc e) 200, w2)
            | Some (Inr received_message, w2) \<Rightarrow>
                Some (Inr \<lparr>status_code = 200,
                           body_data = (if received_message \<noteq> [] then received_message
                                        else ''Failed to mix message!'')\<rparr>, w2))"
          using Inr msg m self by (intro mix_sent) simp_all
        show ?thesis
        proof (cases "send_message E self message ''destination_node'' w1")
          case None
          then show ?thesis using run right by simp
        next
          case (Some res2)
          obtain r2 w2 where res2: "res2 = (r2, w2)" by (cases res2) auto
          have "heap w2 = heap w1"
            using Some res2 send_message_heap [of E self message "''destination_node''" w1 r2 w2]
            by simp
          moreover have "w' = w2"
            using run right Some res2 by (cases r2) simp_all
          ultimately show ?thesis
            using h1 m self by auto
        qed
      qed
    qed
  qed
  then show "heap w' = heap w \<or> (\<exists>obj. heap w' = heap w @ [obj])"
    and "json_body request = Inr (JObject kvs) \<Longrightarrow> \<exists>obj. heap w' = heap w @ [obj]"
    and "res = Inr resp \<Longrightarrow> \<exists>self w1. Mixnet E None w = (Inr self, w1) \<and> heap w' = heap w1"
    by blast+
qed

text \<open>
  C10, as the code has it. A request whose body parses to a JSON object allocates one
  new \<^verbatim>\<open>Mixnet\<close> object and changes no object that was there before. What the handler
  answers, prints and draws from the random source, and the object it allocates, do not
  depend on the objects of earlier requests. When the handler returns a response, the
  new object holds the 10 key pairs of the ids 0 to 9, generated in this request.
\<close>

theorem mix_request_builds_its_own_mixnet:
  assumes body: "json_body request = Inr (JObject kvs)"
  shows "mix_incoming_messages E request (w\<lparr>heap := h\<rparr>)
           = map_option (apsnd (\<lambda>w'. w'\<lparr>heap := h @ drop (length (heap w)) (heap w')\<rparr>))
               (mix_incoming_messages E request w)
    \<and> (mix_incoming_messages E request w = Some (res, w')
          \<longrightarrow> (\<exists>obj. heap w' = heap w @ [obj]))
    \<and> (mix_incoming_messages E request w = Some (Inr resp, w')
          \<longrightarrow> (\<exists>obj. heap w' = heap w @ [obj]
                \<and> map fst (pkiPriv obj) = [0, 1, 2, 3, 4, 5, 6, 7, 8, 9]
                \<and> map fst (pkiPub obj) = [0, 1, 2, 3, 4, 5, 6, 7, 8, 9]
                \<and> (\<forall>k e. map_of (pkiPriv obj) k = Some e \<longrightarrow> pki_x e \<noteq> None)
                \<and> (\<forall>k e. map_of (pkiPub obj) k = Some e \<longrightarrow> pki_x e = None)))"
proof -
  have a: "mix_incoming_messages E request (w\<lparr>heap := h\<rparr>)
           = map_option (apsnd (\<lambda>w'. w'\<lparr>heap := h @ drop (length (heap w)) (heap w')\<rparr>))
               (mix_incoming_messages E request w)"
    by (rule mix_relocate)
  have b: "\<exists>obj. heap w' = heap w @ [obj]"
    if "mix_incoming_messages E request w = Some (res, w')"
    using mix_outcome(2) [OF that body] .
  have c: "\<exists>obj. heap w' = heap w @ [obj]
                \<and> map fst (pkiPriv obj) = [0, 1, 2, 3, 4, 5, 6, 7, 8, 9]
                \<and> map fst (pkiPub obj) = [0, 1, 2, 3, 4, 5, 6, 7, 8, 9]
                \<and> (\<forall>k e. map_of (pkiPriv obj) k = Some e \<longrightarrow> pki_x e \<noteq> None)
                \<and> (\<forall>k e. map_of (pkiPub obj) k = Some e \<longrightarrow> pki_x e = None)"
    if run: "mix_incoming_messages E request w = Some (Inr resp, w')"
  proof -
    from mix_outcome(3) [OF run] obtain self w1 where
      m: "Mixnet E None w = (Inr self, w1)" and h: "heap w' = heap w1"
      by blast
    from Mixnet_frame [OF m] obtain obj where h1: "heap w1 = heap w @ [obj]"
      by blast
    have "self = length (heap w)"
      using Mixnet_success(1) [OF m] .
    then have obj: "heap w1 ! self = obj"
      using h1 by simp
    have "map fst (pkiPriv obj) = [0, 1, 2, 3, 4, 5, 6, 7, 8, 9]"
      using Mixnet_keys(1) [OF m] obj by (simp add: py_range_10)
    moreover have "map fst (pkiPub obj) = [0, 1, 2, 3, 4, 5, 6, 7, 8, 9]"
      using Mixnet_keys(2) [OF m] obj by (simp add: py_range_10)
    moreover have "\<forall>k e. map_of (pkiPriv obj) k = Some e \<longrightarrow> pki_x e \<noteq> None"
      using Mixnet_priv_some [OF m] obj by simp
    moreover have "\<forall>k e. map_of (pkiPub obj) k = Some e \<longrightarrow> pki_x e = None"
      using Mixnet_pub_none [OF m] obj by simp
    ultimately show ?thesis
      using h h1 by simp
  qed
  show ?thesis
    using a b c by blast
qed

theorem mix_request_builds_its_own_mixnet_witness:
  "json_body hello_request = Inr (JObject [(''message'', JString ''hello'')])
   \<and> map_option fst (mix_incoming_messages toy hello_request world0)
       = Some (Inr \<lparr>status_code = 200, body_data = ''hello''\<rparr>)
   \<and> mix_incoming_messages toy hello_request (world0\<lparr>heap := heap world3\<rparr>)
       = map_option
           (apsnd (\<lambda>w'. w'\<lparr>heap := heap world3 @ drop (length (heap world0)) (heap w')\<rparr>))
           (mix_incoming_messages toy hello_request world0)
   \<and> (\<exists>obj. heap (snd (the (mix_incoming_messages toy hello_request world0))) = heap world0 @ [obj]
         \<and> map fst (pkiPriv obj) = [0, 1, 2, 3, 4, 5, 6, 7, 8, 9])"
proof -
  let ?w' = "snd (the (mix_incoming_messages toy hello_request world0))"
  have body: "json_body hello_request = Inr (JObject [(''message'', JString ''hello'')])"
    by (simp add: hello_request_def)
  have run: "mix_incoming_messages toy hello_request world0
               = Some (Inr \<lparr>status_code = 200, body_data = ''hello''\<rparr>, ?w')"
    by code_simp
  note t = mix_request_builds_its_own_mixnet
             [OF body, where E = toy and w = world0 and h = "heap world3" and w' = ?w'
                and resp = "\<lparr>status_code = 200, body_data = ''hello''\<rparr>"]
  have "\<exists>obj. heap ?w' = heap world0 @ [obj]
                \<and> map fst (pkiPriv obj) = [0, 1, 2, 3, 4, 5, 6, 7, 8, 9]
                \<and> map fst (pkiPub obj) = [0, 1, 2, 3, 4, 5, 6, 7, 8, 9]
                \<and> (\<forall>k e. map_of (pkiPriv obj) k = Some e \<longrightarrow> pki_x e \<noteq> None)
                \<and> (\<forall>k e. map_of (pkiPub obj) k = Some e \<longrightarrow> pki_x e = None)"
    using t [THEN conjunct2, THEN conjunct2] run by (rule mp)
  then obtain obj where "heap ?w' = heap world0 @ [obj]"
    and "map fst (pkiPriv obj) = [0, 1, 2, 3, 4, 5, 6, 7, 8, 9]"
    by (elim exE conjE)
  then have "\<exists>obj. heap ?w' = heap world0 @ [obj]
         \<and> map fst (pkiPriv obj) = [0, 1, 2, 3, 4, 5, 6, 7, 8, 9]"
    by (intro exI conjI)
  moreover have "mix_incoming_messages toy hello_request (world0\<lparr>heap := heap world3\<rparr>)
       = map_option
           (apsnd (\<lambda>w'. w'\<lparr>heap := heap world3 @ drop (length (heap world0)) (heap w')\<rparr>))
           (mix_incoming_messages toy hello_request world0)"
    using t by (rule conjunct1)
  moreover have "map_option fst (mix_incoming_messages toy hello_request world0)
       = Some (Inr \<lparr>status_code = 200, body_data = ''hello''\<rparr>)"
    by (subst run) simp
  ultimately show ?thesis
    using body by (intro conjI)
qed

text \<open>
  C10 as stated fails for a request whose body the JSON parser rejects: the handler
  fails before \<^verbatim>\<open>Mixnet()\<close>, and no object is allocated.
\<close>

theorem mix_unparsable_body_builds_no_mixnet:
  "mix_incoming_messages toy
     \<lparr>json_body = Inl (PyExc ''JSONDecodeError'' ''Expecting value: line 1 column 1 (char 0)'')\<rparr>
     world0
   = Some (Inl (PyExc ''TypeError'' ''Object of type JSONDecodeError is not JSON serializable''),
           world0)
   \<and> heap world0 = []"
  by (simp add: mix_no_message JSONResponse_Exc world0_def)

end
